theory Spec2Isabelle
  imports Main
begin

section \<open>Values and scopes\<close>

text \<open>
  Scope values are \<open>string | number | boolean\<close>. Numbers are modelled as integers
  (container ids, uids, ports); fractional numbers are outside the model.
\<close>

datatype val = VStr string | VNum int | VBool bool

text \<open>
  \<open>outputs\<close> and \<open>defaults\<close> are JavaScript \<open>Map\<close>s and \<open>inputs\<close> is a plain object:
  each is an association list in insertion order with unique keys. \<open>Map.prototype.set\<close>
  overwrites the value of a key that exists (keeping its position) and appends a new key.
  The reordering of integer-like keys by plain objects is outside the model.
\<close>

type_synonym scope = "(string \<times> val) list"

fun map_set :: "string \<Rightarrow> val \<Rightarrow> scope \<Rightarrow> scope" where
  "map_set k v [] = [(k, v)]"
| "map_set k v ((k', v') # m) = (if k' = k then (k, v) # m else (k', v') # map_set k v m)"

definition map_get :: "scope \<Rightarrow> string \<Rightarrow> val option" where
  "map_get m k = map_of m k"

text \<open>Loading a list of \<open>{name, value}\<close> pairs with successive \<open>set\<close> calls.\<close>

fun set_all :: "scope \<Rightarrow> scope \<Rightarrow> scope" where
  "set_all [] m = m"
| "set_all ((k, v) # kvs) m = set_all kvs (map_set k v m)"

section \<open>Strings\<close>

fun showDigits :: "nat \<Rightarrow> nat \<Rightarrow> string" where
  "showDigits 0 n = []"
| "showDigits (Suc fuel) n =
     (if n < 10 then [char_of (48 + n)]
      else showDigits fuel (n div 10) @ [char_of (48 + n mod 10)])"

definition showNat :: "nat \<Rightarrow> string" where
  "showNat n = showDigits (Suc n) n"

definition showInt :: "int \<Rightarrow> string" where
  "showInt i = (if i < 0 then CHR ''-'' # showNat (nat (- i)) else showNat (nat i))"

text \<open>\<open>String(value)\<close>.\<close>

fun showVal :: "val \<Rightarrow> string" where
  "showVal (VStr s) = s"
| "showVal (VNum n) = showInt n"
| "showVal (VBool b) = (if b then ''true'' else ''false'')"

definition isSpace :: "char \<Rightarrow> bool" where
  "isSpace c = (c \<in> set [CHR '' '', CHR 0x09, CHR 0x0A, CHR 0x0B, CHR 0x0C, CHR 0x0D])"

text \<open>\<open>String.prototype.trim\<close> on ASCII white space.\<close>

definition trim :: "string \<Rightarrow> string" where
  "trim s = rev (dropWhile isSpace (rev (dropWhile isSpace s)))"

definition startsWith :: "string \<Rightarrow> string \<Rightarrow> bool" where
  "startsWith s p = (take (length p) s = p)"

text \<open>
  \<open>s.slice(s.indexOf(m) + m.length)\<close> when \<open>indexOf\<close> finds \<open>m\<close>, and \<open>None\<close> when
  \<open>indexOf\<close> returns \<open>-1\<close>.
\<close>

fun afterFirst :: "string \<Rightarrow> string \<Rightarrow> string option" where
  "afterFirst m [] = (if m = [] then Some [] else None)"
| "afterFirst m (c # cs) =
     (if startsWith (c # cs) m then Some (drop (length m) (c # cs)) else afterFirst m cs)"

text \<open>\<open>s.includes(m)\<close>.\<close>

definition includesStr :: "string \<Rightarrow> string \<Rightarrow> bool" where
  "includesStr s m = (afterFirst m s \<noteq> None)"

section \<open>Variable resolver\<close>

text \<open>
  The class \<open>VariableResolver\<close> (\<open>variable-resolver.mts\<close>) is imported by
  \<open>ve-execution.mts\<close> but is not among the sources. Its four definitions below follow the
  contract of section 4.1 of the spec.
\<close>

text \<open>
  Modelled from the spec: the single pass over the text of the missing \<open>VariableResolver\<close>.
  Every \<open>{{name}}\<close> token is replaced by what \<open>f\<close> gives for the name; the scripts of the
  repository write tokens as \<open>{{ name }}\<close>, so white space around the name is dropped. An
  opening \<open>{{\<close> without a closing \<open>}}\<close> is left as it is, and a replacement is not
  scanned again. The scanner is outside a token (\<open>None\<close>) or inside one, holding the
  characters of the name read so far in reverse (\<open>Some nm\<close>).
\<close>

fun subst :: "(string \<Rightarrow> string) \<Rightarrow> string option \<Rightarrow> string \<Rightarrow> string" where
  "subst f None [] = []"
| "subst f None [c] = [c]"
| "subst f None (c # d # cs) =
     (if c = CHR ''{'' \<and> d = CHR ''{'' then subst f (Some []) cs
      else c # subst f None (d # cs))"
| "subst f (Some nm) [] = ''{{'' @ rev nm"
| "subst f (Some nm) [c] = ''{{'' @ rev nm @ [c]"
| "subst f (Some nm) (c # d # cs) =
     (if c = CHR ''}'' \<and> d = CHR ''}'' then f (trim (rev nm)) @ subst f None cs
      else subst f (Some (c # nm)) (d # cs))"

text \<open>
  Modelled from the spec: the lookup of the missing \<open>VariableResolver\<close>, the string form of
  the first defined value in the order override context, outputs, inputs, defaults, and the
  sentinel \<open>NOT_DEFINED\<close> when no scope defines the name.
\<close>

definition lookupVar :: "scope \<Rightarrow> scope \<Rightarrow> scope \<Rightarrow> scope \<Rightarrow> string \<Rightarrow> string" where
  "lookupVar ctx outs ins defs name =
     (case map_get ctx name of Some v \<Rightarrow> showVal v
      | None \<Rightarrow> (case map_get outs name of Some v \<Rightarrow> showVal v
      | None \<Rightarrow> (case map_get ins name of Some v \<Rightarrow> showVal v
      | None \<Rightarrow> (case map_get defs name of Some v \<Rightarrow> showVal v
      | None \<Rightarrow> ''NOT_DEFINED''))))"

text \<open>
  Modelled from the spec: \<open>replaceVarsWithContext\<close> of the missing \<open>VariableResolver\<close>, the
  entry point with an explicit override map.
\<close>

definition replaceVarsWithContext ::
    "scope \<Rightarrow> scope \<Rightarrow> scope \<Rightarrow> scope \<Rightarrow> string \<Rightarrow> string" where
  "replaceVarsWithContext ctx outs ins defs s =
     subst (lookupVar ctx outs ins defs) None s"

text \<open>
  Modelled from the spec: \<open>replaceVars\<close> of the missing \<open>VariableResolver\<close>, the entry point
  without an override map.
\<close>

definition replaceVars :: "scope \<Rightarrow> scope \<Rightarrow> scope \<Rightarrow> string \<Rightarrow> string" where
  "replaceVars outs ins defs s = replaceVarsWithContext [] outs ins defs s"

section \<open>Commands, messages and checkpoints\<close>

text \<open>
  The value of a properties entry is a primitive or something else (an array or an
  object), which the executor does not store.
\<close>

datatype propvalue = Prim val | NonPrim

record property =
  p_id :: string
  p_value :: "propvalue option"

datatype properties = PropList "property list" | PropObject property | PropOther

text \<open>\<open>ICommand\<close>: an absent field is \<open>None\<close>.\<close>

record icommand =
  c_name :: "string option"
  c_description :: "string option"
  c_execute_on :: "string option"
  c_properties :: "properties option"
  c_script :: "string option"
  c_command :: "string option"

text \<open>
  The \<open>result\<close> field of a message: \<open>null\<close>, a text, or \<open>JSON.stringify(cmd.properties)\<close>,
  kept as the properties themselves.
\<close>

datatype result = RNull | RText string | RJson properties

text \<open>
  \<open>IVeExecuteMessage\<close>. \<open>m_error\<close> holds the text handed to the \<open>JsonError\<close>
  constructor.
\<close>

record message =
  m_command :: "string option"
  m_commandtext :: "string option"
  m_stderr :: string
  m_result :: result
  m_exitCode :: int
  m_execute_on :: "string option"
  m_index :: "nat option"
  m_partial :: "bool option"
  m_error :: "string option"
  m_finished :: bool
  m_host :: "string option"

definition blankMessage :: message where
  "blankMessage = \<lparr> m_command = None, m_commandtext = None, m_stderr = [], m_result = RNull,
     m_exitCode = 0, m_execute_on = None, m_index = None, m_partial = None, m_error = None,
     m_finished = False, m_host = None \<rparr>"

text \<open>The context built by \<open>buildVmContext\<close> and sent with the \<open>finished\<close> event.\<close>

record vmcontext =
  vc_vmid :: "val option"
  vc_vekey :: "string option"
  vc_data :: scope

datatype event = Message message | Finished vmcontext

text \<open>
  \<open>Number.parseInt(v, 10)\<close> of the \<open>vm_id\<close> output: no output, not a number, or an
  integer.
\<close>

datatype vmid_snapshot = NoVmId | VmIdNaN | VmId int

record restartinfo =
  vm_id :: vmid_snapshot
  lastSuccessfull :: int
  ri_inputs :: scope
  ri_outputs :: scope
  ri_defaults :: scope

section \<open>The environment\<close>

text \<open>\<open>IVEContext\<close>: the host, the port and the key of the hypervisor host.\<close>

record vecontext =
  ve_host :: string
  ve_port :: "nat option"
  ve_key :: "string option"

text \<open>What \<open>spawnAsync\<close> is called with, and what it returns.\<close>

record request =
  r_cmd :: string
  r_args :: "string list"
  r_timeout :: nat
  r_input :: string

datatype chunk = OutChunk string | ErrChunk string

record proc =
  stdout :: string
  stderr :: string
  exitCode :: int
  chunks :: "chunk list"

text \<open>
  The three output shapes that the validator admits for the schema \<open>outputs\<close>
  (\<open>IOutput\<close>, \<open>IOutput[]\<close>, \<open>Array<{name, value}>\<close>), as \<open>parseAndUpdateOutputs\<close> reads
  them.
\<close>

record ioutput =
  o_id :: string
  o_value :: "val option"
  o_default :: "val option"

datatype outputs_json = OSingle ioutput | OArray "ioutput list" | ONameValues "(string \<times> val) list"

text \<open>
  A record of the probe's array as \<open>executeOnHost\<close> reads it: \<open>hostname\<close> when it is a
  string, \<open>pve\<close> and \<open>vmid\<close> when present. A registered \<open>VMContext\<close> has a \<open>vmid\<close> and a
  \<open>data\<close> object.
\<close>

record probe_entry =
  pr_hostname :: "string option"
  pr_pve :: "val option"
  pr_vmid :: "val option"

datatype probe_json = PArray "probe_entry list" | PNotArray

record registered =
  reg_vmid :: val
  reg_data :: scope

text \<open>
  Everything the engine reaches outside itself is a field of the environment: the
  process-spawning primitive (the result of the \<open>n\<close>-th call for a request), the random part
  of the marker, the file system, \<open>JSON.parse\<close> with the schema validation, and the host
  registry. The parsers return \<open>Inl\<close> with the message of the exception they throw.
  \<open>jsonEntries\<close> is \<open>Object.entries(JSON.parse(m))\<close> of the fallback path: \<open>None\<close> when
  \<open>JSON.parse\<close> throws, \<open>Some None\<close> when \<open>Object.entries\<close> throws.

  \<open>requireModule\<close> is the call \<open>require(name)\<close>. The identifier \<open>require\<close> is free in
  \<open>ve-execution.mts\<close>, which is an ES module: the module loader of Node binds no such
  name, so the call throws a \<open>ReferenceError\<close> (\<open>Inl\<close> with its message); a loader that
  wraps the module in a scope with a \<open>require\<close> lets it return (\<open>Inr\<close>).

  \<open>numberText\<close> is the builtin \<open>Number\<close> on a string: \<open>None\<close> when the result is \<open>NaN\<close>,
  otherwise the decimal text \<open>String(Number(t))\<close> of the number.
\<close>

record env =
  sshCommand :: string
  veContext :: "vecontext option"
  scriptTimeoutMs :: nat
  spawnAsync :: "nat \<Rightarrow> request \<Rightarrow> proc"
  nonce :: "nat \<Rightarrow> string"
  readFileSync :: "string \<Rightarrow> string + string"
  jsonOutputs :: "string \<Rightarrow> string + outputs_json"
  jsonProbe :: "string \<Rightarrow> probe_json option"
  jsonEntries :: "string \<Rightarrow> scope option option"
  localFileBase64 :: "string \<Rightarrow> string + string"
  getVMContextByHostname :: "string \<Rightarrow> registered option"
  probeScriptPath :: string
  requireModule :: "string \<Rightarrow> string + unit"
  numberText :: "string \<Rightarrow> string option"

section \<open>The state of an execution\<close>

text \<open>
  The fields of a \<open>VeExecution\<close> and of its \<open>OutputProcessor\<close> (\<open>outputsRawResult\<close>), the
  module-level counter \<open>index\<close> (\<open>gindex\<close>), and the effects: the events emitted, the number
  of \<open>spawnAsync\<close> calls made and the waits of the retry loop in milliseconds.
\<close>

record state =
  inputs :: scope
  outputs :: scope
  defaults :: scope
  outputsRaw :: "scope option"
  outputsRawResult :: "scope option"
  gindex :: nat
  events :: "event list"
  spawns :: nat
  sleeps :: "nat list"

definition emit :: "message \<Rightarrow> state \<Rightarrow> state" where
  "emit m s = s\<lparr>events := events s @ [Message m]\<rparr>"

text \<open>The constructor: inputs are loaded from the \<open>{id, value}\<close> list.\<close>

definition construct :: "scope \<Rightarrow> scope \<Rightarrow> state" where
  "construct inps defs = \<lparr> inputs = set_all inps [], outputs = [], defaults = defs,
     outputsRaw = None, outputsRawResult = None, gindex = 0, events = [], spawns = 0,
     sleeps = [] \<rparr>"

section \<open>Output processor\<close>

text \<open>
  \<open>processLocalFileValue\<close>: a string value with the prefix \<open>local:\<close> is replaced by the
  base64 contents of the file when the execution is local (\<open>sshCommand\<close> is not \<open>ssh\<close>).
\<close>

definition processLocalFileValue :: "env \<Rightarrow> val \<Rightarrow> string + val" where
  "processLocalFileValue E v =
     (case v of
        VStr t \<Rightarrow>
          (if startsWith t ''local:'' \<and> sshCommand E \<noteq> ''ssh'' then
             (case localFileBase64 E (drop 6 t) of Inl e \<Rightarrow> Inl e | Inr b \<Rightarrow> Inr (VStr b))
           else Inr v)
      | _ \<Rightarrow> Inr v)"

text \<open>
  The loops of \<open>parseAndUpdateOutputs\<close>. A record that throws leaves the records before it
  stored: the state is returned with the error.
\<close>

fun nameValueLoop :: "env \<Rightarrow> (string \<times> val) list \<Rightarrow> scope \<Rightarrow> state \<Rightarrow> (string + scope) \<times> state" where
  "nameValueLoop E [] raw s = (Inr raw, s)"
| "nameValueLoop E ((n, v) # nvs) raw s =
     (case processLocalFileValue E v of
        Inl e \<Rightarrow> (Inl e, s)
      | Inr pv \<Rightarrow> nameValueLoop E nvs (raw @ [(n, pv)]) (s\<lparr>outputs := map_set n pv (outputs s)\<rparr>))"

definition storeOutput :: "env \<Rightarrow> ioutput \<Rightarrow> state \<Rightarrow> (string + unit) \<times> state" where
  "storeOutput E entry s =
     (case (case o_value entry of
              None \<Rightarrow> Inr s
            | Some v \<Rightarrow>
                (case processLocalFileValue E v of
                   Inl e \<Rightarrow> Inl e
                 | Inr pv \<Rightarrow> Inr (s\<lparr>outputs := map_set (o_id entry) pv (outputs s)\<rparr>))) of
        Inl e \<Rightarrow> (Inl e, s)
      | Inr s1 \<Rightarrow>
          (Inr (),
           (case o_default entry of
              None \<Rightarrow> s1
            | Some d \<Rightarrow> s1\<lparr>defaults := map_set (o_id entry) d (defaults s1)\<rparr>)))"

fun outputLoop :: "env \<Rightarrow> ioutput list \<Rightarrow> state \<Rightarrow> (string + unit) \<times> state" where
  "outputLoop E [] s = (Inr (), s)"
| "outputLoop E (entry # entries) s =
     (case storeOutput E entry s of
        (Inl e, s1) \<Rightarrow> (Inl e, s1)
      | (Inr u, s1) \<Rightarrow> outputLoop E entries s1)"

definition applyOutputs :: "env \<Rightarrow> outputs_json \<Rightarrow> state \<Rightarrow> (string + unit) \<times> state" where
  "applyOutputs E j s =
     (case j of
        ONameValues [] \<Rightarrow> (Inr (), s)
      | ONameValues (nv # nvs) \<Rightarrow>
          (case nameValueLoop E (nv # nvs) [] s of
             (Inl e, s1) \<Rightarrow> (Inl e, s1)
           | (Inr raw, s1) \<Rightarrow> (Inr (), s1\<lparr>outputsRawResult := Some raw\<rparr>))
      | OArray entries \<Rightarrow> outputLoop E entries s
      | OSingle obj \<Rightarrow> storeOutput E obj s)"

text \<open>The text left after the banner and the marker are stripped.\<close>

definition cleanStdout :: "string \<Rightarrow> string \<Rightarrow> string" where
  "cleanStdout out marker =
     (let cleaned = trim out in
      if marker \<noteq> [] then
        (case afterFirst marker cleaned of Some r \<Rightarrow> trim r | None \<Rightarrow> cleaned)
      else cleaned)"

definition parseAndUpdateOutputs :: "env \<Rightarrow> string \<Rightarrow> string \<Rightarrow> state \<Rightarrow> (string + unit) \<times> state" where
  "parseAndUpdateOutputs E out marker s =
     (if trim out = [] then (Inr (), s)
      else if cleanStdout out marker = [] then (Inr (), s)
      else (case jsonOutputs E (cleanStdout out marker) of
              Inl e \<Rightarrow> (Inl e, s)
            | Inr j \<Rightarrow> applyOutputs E j s))"

section \<open>Remote command runner\<close>

definition maxRetries :: nat where
  "maxRetries = 3"

definition showOpt :: "string option \<Rightarrow> string" where
  "showOpt x = (case x of None \<Rightarrow> ''undefined'' | Some t \<Rightarrow> t)"

definition failText :: "string option \<Rightarrow> int \<Rightarrow> string \<Rightarrow> string" where
  "failText name code err =
     ''Command '' @ [CHR 0x22] @ showOpt name @ [CHR 0x22] @ '' failed with exit code ''
       @ showInt code @ '': '' @ err"

text \<open>The arguments of the session: the ssh options when \<open>sshCommand\<close> is \<open>ssh\<close>.\<close>

definition sshArgsOf :: "env \<Rightarrow> string list option \<Rightarrow> string + string list" where
  "sshArgsOf E remoteCommand =
     (case (if sshCommand E = ''ssh'' then
              (case veContext E of
                 None \<Rightarrow> Inl ''SSH parameters not set''
               | Some vc \<Rightarrow>
                   Inr [''-o'', ''StrictHostKeyChecking=no'', ''-o'', ''BatchMode=yes'',
                        ''-o'', ''PasswordAuthentication=no'',
                        ''-o'', ''PreferredAuthentications=publickey'',
                        ''-o'', ''LogLevel=ERROR'', ''-o'', ''ServerAliveInterval=30'',
                        ''-o'', ''ServerAliveCountMax=3'', ''-T'', ''-q'', ''-p'',
                        showNat (case ve_port vc of None \<Rightarrow> 22
                                 | Some n \<Rightarrow> if n = 0 then 22 else n),
                        if includesStr (ve_host vc) ''@'' then ve_host vc
                        else ''root@'' @ ve_host vc])
            else Inr []) of
        Inl e \<Rightarrow> Inl e
      | Inr args \<Rightarrow>
          Inr (case remoteCommand of None \<Rightarrow> args | Some rc \<Rightarrow> args @ rc))"

text \<open>The partial messages of the \<open>onStdout\<close> and \<open>onStderr\<close> callbacks.\<close>

definition partialMessage :: "icommand \<Rightarrow> string \<Rightarrow> chunk \<Rightarrow> message" where
  "partialMessage tmpl input ch =
     blankMessage\<lparr>
       m_command := Some (case c_name tmpl of None \<Rightarrow> ''streaming''
                          | Some n \<Rightarrow> if n = [] then ''streaming'' else n),
       m_commandtext := Some input,
       m_stderr := (case ch of OutChunk t \<Rightarrow> [] | ErrChunk t \<Rightarrow> t),
       m_result := (case ch of OutChunk t \<Rightarrow> RText t | ErrChunk t \<Rightarrow> RNull),
       m_exitCode := - 1,
       m_execute_on := c_execute_on tmpl,
       m_partial := Some True\<rparr>"

fun emitChunks :: "icommand \<Rightarrow> string \<Rightarrow> chunk list \<Rightarrow> state \<Rightarrow> state" where
  "emitChunks tmpl input [] s = s"
| "emitChunks tmpl input (ch # chs) s =
     emitChunks tmpl input chs (emit (partialMessage tmpl input ch) s)"

text \<open>
  The retry loop of \<open>runOnVeHost\<close>: \<open>while (retryCount < maxRetries)\<close>, with the last
  \<open>proc\<close> and the retry count as loop variables. Exit code 255 increments the count and,
  when attempts remain, waits 3000 ms and continues; everything else breaks.
\<close>

function spawnLoop ::
    "env \<Rightarrow> request \<Rightarrow> icommand \<Rightarrow> string \<Rightarrow> nat \<Rightarrow> proc option \<Rightarrow> state \<Rightarrow> proc option \<times> state" where
  "spawnLoop E rq tmpl input retryCount prev s =
     (if retryCount < maxRetries then
        (if exitCode (spawnAsync E (spawns s) rq) = 255 \<and> Suc retryCount < maxRetries then
           spawnLoop E rq tmpl input (Suc retryCount) (Some (spawnAsync E (spawns s) rq))
             ((emitChunks tmpl input (chunks (spawnAsync E (spawns s) rq))
                 (s\<lparr>spawns := Suc (spawns s)\<rparr>))
              \<lparr>sleeps := sleeps s @ [3000]\<rparr>)
         else
           (Some (spawnAsync E (spawns s) rq),
            emitChunks tmpl input (chunks (spawnAsync E (spawns s) rq))
              (s\<lparr>spawns := Suc (spawns s)\<rparr>)))
      else (prev, s))"
  by pat_completeness auto
termination
  by (relation "measure (\<lambda>(E, rq, tmpl, input, retryCount, prev, s). maxRetries - retryCount)")
     auto

declare spawnLoop.simps [simp del]

text \<open>The part of \<open>runOnVeHost\<close> after the retry loop.\<close>

definition finishRun ::
    "env \<Rightarrow> string \<Rightarrow> icommand \<Rightarrow> string \<Rightarrow> proc \<Rightarrow> state \<Rightarrow> (string + message) \<times> state" where
  "finishRun E input tmpl marker p s =
     (let msg = blankMessage\<lparr>
            m_stderr := stderr p, m_commandtext := Some input, m_result := RText (stdout p),
            m_exitCode := exitCode p, m_command := c_name tmpl,
            m_execute_on := c_execute_on tmpl\<rparr>
      in if trim (stdout p) = [] then
           (if exitCode p = 0 then
              (Inr (msg\<lparr>m_result := RText ''OK'', m_index := Some (gindex s),
                        m_partial := Some False\<rparr>),
               emit (msg\<lparr>m_result := RText ''OK'', m_index := Some (gindex s),
                         m_partial := Some False\<rparr>)
                 (s\<lparr>gindex := Suc (gindex s)\<rparr>))
            else
              (Inl (failText (c_name tmpl) (exitCode p) (stderr p)),
               emit (msg\<lparr>m_result := RText ''ERROR'', m_index := Some (gindex s),
                         m_error := Some (failText (c_name tmpl) (exitCode p) (stderr p)),
                         m_partial := Some False\<rparr>) s))
         else
           (case parseAndUpdateOutputs E (stdout p) marker s of
              (Inl e, s1) \<Rightarrow>
                (Inl ''An error occurred during command execution.'',
                 emit (msg\<lparr>m_index := Some (gindex s1), m_error := Some e, m_exitCode := - 1,
                           m_partial := Some False\<rparr>) s1)
            | (Inr u, s1) \<Rightarrow>
                (let s2 = (case outputsRawResult s1 of
                             None \<Rightarrow> s1
                           | Some r \<Rightarrow> s1\<lparr>outputsRaw := Some r\<rparr>)
                 in if exitCode p \<noteq> 0 then
                      (Inl (failText (c_name tmpl) (exitCode p) (stderr p)), s2)
                    else
                      (Inr (msg\<lparr>m_index := Some (gindex s2), m_partial := Some False\<rparr>),
                       emit (msg\<lparr>m_index := Some (gindex s2), m_partial := Some False\<rparr>)
                         (s2\<lparr>gindex := Suc (gindex s2)\<rparr>)))))"

text \<open>
  The marker of one call of \<open>runOnVeHost\<close>: its random part is that of the number of
  sessions made before the call, so two calls never share a marker.
\<close>

definition markerOf :: "env \<Rightarrow> state \<Rightarrow> string" where
  "markerOf E s = ''LXC_MANAGER_JSON_START_MARKER_'' @ nonce E (spawns s)"

definition requestOf :: "env \<Rightarrow> string list \<Rightarrow> nat option \<Rightarrow> string \<Rightarrow> string \<Rightarrow> request" where
  "requestOf E sshArgs timeoutMs marker input =
     \<lparr> r_cmd = sshCommand E, r_args = sshArgs,
       r_timeout = (case timeoutMs of None \<Rightarrow> scriptTimeoutMs E | Some t \<Rightarrow> t),
       r_input = ''echo '' @ [CHR 0x22] @ marker @ [CHR 0x22, CHR 0x0A] @ input \<rparr>"

definition runOnVeHost ::
    "env \<Rightarrow> string \<Rightarrow> icommand \<Rightarrow> nat option \<Rightarrow> string list option \<Rightarrow> state
      \<Rightarrow> (string + message) \<times> state" where
  "runOnVeHost E input tmpl timeoutMs remoteCommand s =
     (case sshArgsOf E remoteCommand of
        Inl e \<Rightarrow> (Inl e, s)
      | Inr sshArgs \<Rightarrow>
          (case spawnLoop E (requestOf E sshArgs timeoutMs (markerOf E s) input) tmpl input 0
                  None s of
             (None, s1) \<Rightarrow> (Inl ''proc is undefined'', s1)
           | (Some p, s1) \<Rightarrow> finishRun E input tmpl (markerOf E s) p s1))"

text \<open>\<open>runOnLxc\<close>: the payload goes through \<open>lxc-attach -n <vm_id>\<close> when the session is ssh.\<close>

definition runOnLxc ::
    "env \<Rightarrow> val \<Rightarrow> string \<Rightarrow> icommand \<Rightarrow> nat option \<Rightarrow> state \<Rightarrow> (string + message) \<times> state" where
  "runOnLxc E vmid cmdtext tmpl timeoutMs s =
     runOnVeHost E cmdtext tmpl timeoutMs
       (if sshCommand E \<noteq> ''ssh'' then None else Some [''lxc-attach'', ''-n'', showVal vmid]) s"

section \<open>Numbers read from values\<close>

definition isDigit :: "char \<Rightarrow> bool" where
  "isDigit c = (48 \<le> (of_char c :: nat) \<and> (of_char c :: nat) \<le> 57)"

definition digitsVal :: "string \<Rightarrow> nat" where
  "digitsVal ds = foldl (\<lambda>a c. a * 10 + ((of_char c :: nat) - 48)) 0 ds"

text \<open>
  \<open>Number(v)\<close>, with \<open>None\<close> for \<open>NaN\<close>. A number is held as its decimal text
  \<open>String(n)\<close>: two numbers other than \<open>NaN\<close> are \<open>===\<close> exactly when their texts are equal
  (\<open>0\<close> and \<open>-0\<close>, which \<open>===\<close> does not tell apart, are both \<open>0\<close>). \<open>undefined\<close> is \<open>NaN\<close>,
  \<open>true\<close> is 1 and \<open>false\<close> is 0, and a string is read by the builtin.
\<close>

definition toNumber :: "env \<Rightarrow> val option \<Rightarrow> string option" where
  "toNumber E x =
     (case x of
        None \<Rightarrow> None
      | Some (VNum n) \<Rightarrow> Some (showInt n)
      | Some (VBool b) \<Rightarrow> Some (if b then ''1'' else ''0'')
      | Some (VStr t) \<Rightarrow> numberText E t)"

text \<open>\<open>Number.parseInt(v, 10)\<close>: the longest signed digit prefix after leading white space.\<close>

definition parseInt10 :: "val \<Rightarrow> vmid_snapshot" where
  "parseInt10 v =
     (case v of
        VNum n \<Rightarrow> VmId n
      | VBool b \<Rightarrow> VmIdNaN
      | VStr t \<Rightarrow>
          (let u = dropWhile isSpace t;
               neg = (u \<noteq> [] \<and> hd u = CHR ''-'');
               body = (if u \<noteq> [] \<and> (hd u = CHR ''-'' \<or> hd u = CHR ''+'') then tl u else u);
               ds = takeWhile isDigit body
           in if ds = [] then VmIdNaN
              else VmId (if neg then - int (digitsVal ds) else int (digitsVal ds))))"

section \<open>Host discovery\<close>

definition pveOk :: "registered \<Rightarrow> probe_entry \<Rightarrow> bool" where
  "pveOk vmctx found =
     (case map_get (reg_data vmctx) ''pve'' of
        None \<Rightarrow> False
      | Some p \<Rightarrow> pr_pve found = Some p)"

text \<open>\<open>Number(vmctx.vmid) === Number(found.vmid)\<close>: \<open>NaN\<close> is equal to nothing.\<close>

definition vmidOk :: "env \<Rightarrow> registered \<Rightarrow> probe_entry \<Rightarrow> bool" where
  "vmidOk E vmctx found =
     (case (toNumber E (Some (reg_vmid vmctx)), toNumber E (pr_vmid found)) of
        (Some a, Some b) \<Rightarrow> a = b
      | _ \<Rightarrow> False)"

text \<open>
  The text that is parsed as the probe's array: the output \<open>used_vm_ids\<close> when there is
  one and it is not empty, otherwise the result text of the probe's message.
\<close>

definition usedStrOf :: "state \<Rightarrow> message \<Rightarrow> string option" where
  "usedStrOf s probeMsg =
     (let fromOutputs = (case map_get (outputs s) ''used_vm_ids'' of
                           None \<Rightarrow> None
                         | Some v \<Rightarrow> Some (showVal v))
      in if fromOutputs = None \<or> fromOutputs = Some [] then
           (case m_result probeMsg of RText t \<Rightarrow> Some t | _ \<Rightarrow> fromOutputs)
         else fromOutputs)"

text \<open>
  The checks of \<open>executeOnHost\<close> between the probe and the payload: the registered
  context of the host name when every check passes, the message of the error otherwise.
\<close>

definition verifyHost :: "env \<Rightarrow> string \<Rightarrow> string option \<Rightarrow> string + registered" where
  "verifyHost E hostname usedStr =
     (case usedStr of
        None \<Rightarrow> Inl ''No used_vm_ids result received from host probe''
      | Some u \<Rightarrow>
          if u = [] then Inl ''No used_vm_ids result received from host probe''
          else
            (case jsonProbe E u of
               None \<Rightarrow> Inl ''Invalid used_vm_ids JSON''
             | Some PNotArray \<Rightarrow> Inl ''used_vm_ids is not an array''
             | Some (PArray arr) \<Rightarrow>
                 (case find (\<lambda>x. pr_hostname x = Some hostname) arr of
                    None \<Rightarrow> Inl (''Hostname '' @ hostname @ '' not found in used_vm_ids'')
                  | Some found \<Rightarrow>
                      (case getVMContextByHostname E hostname of
                         None \<Rightarrow> Inl (''VMContext for '' @ hostname @ '' not found'')
                       | Some vmctx \<Rightarrow>
                           if \<not> pveOk vmctx found \<or> \<not> vmidOk E vmctx found then
                             Inl ''PVE or VMID mismatch between host data and VMContext''
                           else Inr vmctx))))"

text \<open>
  The last statements of \<open>executeOnHost\<close>: the tokens of the command are resolved with the
  recorded data of the host as the override context, and the tokens of the result with the
  current outputs as the override context.
\<close>

definition hostPayload :: "scope \<Rightarrow> state \<Rightarrow> string \<Rightarrow> string" where
  "hostPayload data s cmdtext =
     replaceVarsWithContext (outputs s) (outputs s) (inputs s) (defaults s)
       (replaceVarsWithContext data (outputs s) (inputs s) (defaults s) cmdtext)"

text \<open>
  \<open>executeOnHost\<close>. Its first two statements call \<open>require\<close> for \<open>node:path\<close> and
  \<open>node:url\<close>; an exception there leaves the method before the probe is run. The path of
  the probe script, computed from the location of the module, is a constant of the
  environment.
\<close>

definition executeOnHost ::
    "env \<Rightarrow> string \<Rightarrow> string \<Rightarrow> icommand \<Rightarrow> state \<Rightarrow> (string + unit) \<times> state" where
  "executeOnHost E hostname cmdtext tmpl s =
     (case requireModule E ''node:path'' of
        Inl e \<Rightarrow> (Inl e, s)
      | Inr pathModule \<Rightarrow>
     (case requireModule E ''node:url'' of
        Inl e \<Rightarrow> (Inl e, s)
      | Inr urlModule \<Rightarrow>
     (case runOnVeHost E [] (tmpl\<lparr>c_name := Some ''write-vmids''\<rparr>) (Some 10000)
             (Some [probeScriptPath E]) s of
        (Inl e, s1) \<Rightarrow> (Inl e, s1)
      | (Inr probeMsg, s1) \<Rightarrow>
          (case verifyHost E hostname (usedStrOf s1 probeMsg) of
             Inl e \<Rightarrow> (Inl e, s1)
           | Inr vmctx \<Rightarrow>
               (case runOnLxc E (reg_vmid vmctx) (hostPayload (reg_data vmctx) s1 cmdtext)
                       tmpl None s1 of
                  (Inl e, s2) \<Rightarrow> (Inl e, s2)
                | (Inr m, s2) \<Rightarrow> (Inr (), s2))))))"

section \<open>Pipeline executor\<close>

text \<open>One iteration of the loop of \<open>run\<close> ends with \<open>continue\<close> or with \<open>break outerloop\<close>.\<close>

datatype outcome = Continue | Break

text \<open>
  The run-local variables \<open>msgIndex\<close> and \<open>rcRestartInfo\<close> travel with the state of the
  execution.
\<close>

type_synonym runstate = "nat \<times> restartinfo option \<times> state"

text \<open>The message of a step that the executor reports itself.\<close>

definition stepMessage :: "icommand \<Rightarrow> string \<Rightarrow> result \<Rightarrow> int \<Rightarrow> nat \<Rightarrow> message" where
  "stepMessage cmd err res code msgIndex =
     blankMessage\<lparr>m_stderr := err, m_result := res, m_exitCode := code,
       m_command := c_name cmd, m_execute_on := c_execute_on cmd,
       m_index := Some msgIndex, m_partial := Some False\<rparr>"

definition isSkipped :: "icommand \<Rightarrow> bool" where
  "isSkipped cmd =
     (case c_name cmd of None \<Rightarrow> False | Some n \<Rightarrow> n \<noteq> [] \<and> includesStr n ''(skipped)'')"

definition skippedMessage :: "icommand \<Rightarrow> nat \<Rightarrow> message" where
  "skippedMessage cmd msgIndex =
     stepMessage cmd
       (case c_description cmd of
          None \<Rightarrow> ''Skipped: all required parameters missing''
        | Some d \<Rightarrow> if d = [] then ''Skipped: all required parameters missing'' else d)
       RNull 0 msgIndex"

text \<open>
  What a properties entry resolves to: nothing to store, the sentinel \<open>NOT_DEFINED\<close>, or
  a primitive value to store.
\<close>

datatype resolved = Ignore | NotDefined | Store val

definition resolveProperty :: "state \<Rightarrow> property \<Rightarrow> resolved" where
  "resolveProperty s entry =
     (if p_id entry = [] then Ignore
      else
        (case p_value entry of
           None \<Rightarrow> Ignore
         | Some NonPrim \<Rightarrow> Ignore
         | Some (Prim (VStr t)) \<Rightarrow>
             (if replaceVars (outputs s) (inputs s) (defaults s) t = ''NOT_DEFINED''
              then NotDefined
              else Store (VStr (replaceVars (outputs s) (inputs s) (defaults s) t)))
         | Some (Prim v) \<Rightarrow> Store v))"

fun propertyLoop :: "property list \<Rightarrow> state \<Rightarrow> state" where
  "propertyLoop [] s = s"
| "propertyLoop (entry # entries) s =
     propertyLoop entries
       (case resolveProperty s entry of
          Store v \<Rightarrow> s\<lparr>outputs := map_set (p_id entry) v (outputs s)\<rparr>
        | _ \<Rightarrow> s)"

definition propertiesMessage :: "icommand \<Rightarrow> properties \<Rightarrow> nat \<Rightarrow> message" where
  "propertiesMessage cmd props msgIndex =
     (stepMessage cmd [] (RJson props) 0 msgIndex)
       \<lparr>m_command := Some (case c_name cmd of None \<Rightarrow> ''properties''
                            | Some n \<Rightarrow> if n = [] then ''properties'' else n)\<rparr>"

text \<open>
  A properties step. In the array branch the \<open>continue\<close> of a \<open>NOT_DEFINED\<close> value goes to
  the next entry. In the single-object branch there is no inner loop, so the same
  \<open>continue\<close> goes to the next command of the outer loop, past the success message.
  Nothing in the branch throws (the resolver is total), so its \<open>catch\<close> block is never
  entered.
\<close>

definition propertiesStep :: "icommand \<Rightarrow> properties \<Rightarrow> runstate \<Rightarrow> outcome \<times> runstate" where
  "propertiesStep cmd props rs =
     (case rs of (msgIndex, rc, s) \<Rightarrow>
        (case props of
           PropList entries \<Rightarrow>
             (Continue, Suc msgIndex, rc,
              emit (propertiesMessage cmd props msgIndex) (propertyLoop entries s))
         | PropObject entry \<Rightarrow>
             (case resolveProperty s entry of
                NotDefined \<Rightarrow> (Continue, msgIndex, rc, s)
              | Store v \<Rightarrow>
                  (Continue, Suc msgIndex, rc,
                   emit (propertiesMessage cmd props msgIndex)
                     (s\<lparr>outputs := map_set (p_id entry) v (outputs s)\<rparr>))
              | Ignore \<Rightarrow>
                  (Continue, Suc msgIndex, rc, emit (propertiesMessage cmd props msgIndex) s))
         | PropOther \<Rightarrow>
             (Continue, Suc msgIndex, rc, emit (propertiesMessage cmd props msgIndex) s)))"

text \<open>The checkpoint: \<open>outputsRaw\<close> is serialised in place of the outputs when it is set.\<close>

definition checkpoint :: "int \<Rightarrow> state \<Rightarrow> restartinfo" where
  "checkpoint i s =
     \<lparr> vm_id = (case map_get (outputs s) ''vm_id'' of None \<Rightarrow> NoVmId | Some v \<Rightarrow> parseInt10 v),
       lastSuccessfull = i,
       ri_inputs = inputs s,
       ri_outputs = (case outputsRaw s of Some raw \<Rightarrow> raw | None \<Rightarrow> outputs s),
       ri_defaults = defaults s \<rparr>"

text \<open>
  The fallback after the switch: with no outputs at all and a message of a \<open>ve\<close> step, the
  result text, without a leading \<open>echo\<close> and surrounding quotes, is parsed as an object.
\<close>

definition stripEcho :: "string \<Rightarrow> string" where
  "stripEcho t =
     (let a = (if startsWith t ''echo'' \<and> drop 4 t \<noteq> [] \<and> isSpace (hd (drop 4 t))
               then dropWhile isSpace (drop 4 t) else t);
          b = (if a \<noteq> [] \<and> hd a = CHR 0x22 then tl a else a)
      in if b \<noteq> [] \<and> last b = CHR 0x22 then butlast b else b)"

definition fallback :: "env \<Rightarrow> message option \<Rightarrow> state \<Rightarrow> state" where
  "fallback E lastMsg s =
     (case lastMsg of
        None \<Rightarrow> s
      | Some m \<Rightarrow>
          (case m_result m of
             RText t \<Rightarrow>
               (if outputs s = [] then
                  (case jsonEntries E (stripEcho t) of
                     None \<Rightarrow> s
                   | Some None \<Rightarrow> s\<lparr>outputsRaw := Some []\<rparr>
                   | Some (Some kvs) \<Rightarrow> s\<lparr>outputs := set_all kvs [], outputsRaw := Some kvs\<rparr>)
                else s)
           | _ \<Rightarrow> s))"

text \<open>The end of the \<open>try\<close> block and the \<open>catch\<close> block of one iteration.\<close>

definition succeeded :: "env \<Rightarrow> int \<Rightarrow> message option \<Rightarrow> nat \<Rightarrow> state \<Rightarrow> outcome \<times> runstate" where
  "succeeded E i lastMsg msgIndex s =
     (Continue, msgIndex, Some (checkpoint i (fallback E lastMsg s)), fallback E lastMsg s)"

definition caught :: "icommand \<Rightarrow> int \<Rightarrow> string \<Rightarrow> nat \<Rightarrow> state \<Rightarrow> outcome \<times> runstate" where
  "caught cmd i e msgIndex s =
     (Break, Suc msgIndex,
      Some (checkpoint (i - 1) (emit (stepMessage cmd e RNull (- 1) msgIndex) s)),
      emit (stepMessage cmd e RNull (- 1) msgIndex) s)"

text \<open>The container id of an \<open>lxc\<close> step: a string or a number of the inputs, else of the outputs.\<close>

definition isStringOrNumber :: "val option \<Rightarrow> bool" where
  "isStringOrNumber x = (case x of Some (VStr t) \<Rightarrow> True | Some (VNum n) \<Rightarrow> True | _ \<Rightarrow> False)"

definition findVmId :: "state \<Rightarrow> val option" where
  "findVmId s =
     (if isStringOrNumber (map_get (inputs s) ''vm_id'') then map_get (inputs s) ''vm_id''
      else if isStringOrNumber (map_get (outputs s) ''vm_id'') then map_get (outputs s) ''vm_id''
      else None)"

definition falsy :: "val option \<Rightarrow> bool" where
  "falsy x = (x = None \<or> x = Some (VStr []) \<or> x = Some (VNum 0) \<or> x = Some (VBool False))"

text \<open>\<open>execute_on.split(":")[1] ?? ""\<close>.\<close>

definition hostnameOf :: "string \<Rightarrow> string" where
  "hostnameOf t = takeWhile (\<lambda>c. c \<noteq> CHR '':'') (drop 1 (dropWhile (\<lambda>c. c \<noteq> CHR '':'') t))"

text \<open>The switch on \<open>execute_on\<close> for a script or command step with the text \<open>rawStr\<close>.\<close>

definition dispatch :: "env \<Rightarrow> int \<Rightarrow> icommand \<Rightarrow> string \<Rightarrow> runstate \<Rightarrow> outcome \<times> runstate" where
  "dispatch E i cmd rawStr rs =
     (case rs of (msgIndex, rc, s) \<Rightarrow>
        if c_execute_on cmd = Some ''lxc'' then
          (case (if falsy (findVmId s) then None else findVmId s) of
             None \<Rightarrow>
               (Break, Suc msgIndex, rc,
                emit (stepMessage cmd
                        ''vm_id is required for LXC execution but was not found in inputs or outputs.''
                        RNull (- 1) msgIndex) s)
           | Some vmid \<Rightarrow>
               (case runOnLxc E vmid
                       (replaceVars (outputs s) (inputs s) (defaults s) rawStr) cmd None s of
                  (Inl e, s1) \<Rightarrow> caught cmd i e msgIndex s1
                | (Inr m, s1) \<Rightarrow> succeeded E i None msgIndex s1))
        else if c_execute_on cmd = Some ''ve'' then
          (case runOnVeHost E (replaceVars (outputs s) (inputs s) (defaults s) rawStr) cmd
                  None None s of
             (Inl e, s1) \<Rightarrow> caught cmd i e msgIndex s1
           | (Inr m, s1) \<Rightarrow> succeeded E i (Some m) msgIndex s1)
        else
          (case c_execute_on cmd of
             None \<Rightarrow>
               (Break, Suc msgIndex, rc,
                emit (stepMessage cmd (showOpt (c_name cmd) @ '' is missing the execute_on property'')
                        RNull (- 1) msgIndex) s)
           | Some target \<Rightarrow>
               if startsWith target ''host:'' then
                 (case executeOnHost E (hostnameOf target) rawStr cmd s of
                    (Inl e, s1) \<Rightarrow>
                      (Break, Suc msgIndex, rc,
                       emit ((stepMessage cmd e RNull (- 1) msgIndex)
                               \<lparr>m_host := Some (hostnameOf target)\<rparr>) s1)
                  | (Inr u, s1) \<Rightarrow> succeeded E i None msgIndex s1)
               else
                 (Break, Suc msgIndex, rc,
                  emit (stepMessage cmd
                          (showOpt (c_name cmd) @ '' is missing the execute_on property'')
                          RNull (- 1) msgIndex) s)))"

text \<open>
  The body of the loop for the command at index \<open>i\<close>. Every element of the command list
  is a command object, so the guard that skips other elements is not modelled; a command
  with none of \<open>properties\<close>, \<open>script\<close> and \<open>command\<close> is skipped.
\<close>

definition step :: "env \<Rightarrow> int \<Rightarrow> icommand \<Rightarrow> runstate \<Rightarrow> outcome \<times> runstate" where
  "step E i cmd rs =
     (case rs of (msgIndex, rc, s) \<Rightarrow>
        if isSkipped cmd then
          (Continue, Suc msgIndex, rc, emit (skippedMessage cmd msgIndex) s)
        else
          (case c_properties cmd of
             Some props \<Rightarrow> propertiesStep cmd props rs
           | None \<Rightarrow>
               (case c_script cmd of
                  Some path \<Rightarrow>
                    (case readFileSync E path of
                       Inl e \<Rightarrow> caught cmd i e msgIndex s
                     | Inr rawStr \<Rightarrow> dispatch E i cmd rawStr rs)
                | None \<Rightarrow>
                    (case c_command cmd of
                       Some rawStr \<Rightarrow> dispatch E i cmd rawStr rs
                     | None \<Rightarrow> (Continue, rs)))))"

fun runLoop :: "env \<Rightarrow> int \<Rightarrow> icommand list \<Rightarrow> runstate \<Rightarrow> runstate" where
  "runLoop E i [] rs = rs"
| "runLoop E i (cmd # cmds) rs =
     (case step E i cmd rs of
        (Continue, rs1) \<Rightarrow> runLoop E (i + 1) cmds rs1
      | (Break, rs1) \<Rightarrow> rs1)"

text \<open>Loading the scopes of a checkpoint, as \<open>run\<close> does when it resumes.\<close>

definition restore :: "restartinfo \<Rightarrow> state \<Rightarrow> state" where
  "restore ri s =
     s\<lparr>outputs := set_all (ri_outputs ri) [], inputs := set_all (ri_inputs ri) [],
       defaults := set_all (ri_defaults ri) []\<rparr>"

definition buildVmContext :: "env \<Rightarrow> state \<Rightarrow> string + vmcontext" where
  "buildVmContext E s =
     (case veContext E of
        None \<Rightarrow> Inl ''VE context not set''
      | Some vc \<Rightarrow>
          Inr \<lparr> vc_vmid = map_get (outputs s) ''vm_id'',
                vc_vekey = Some (case ve_key vc of Some k \<Rightarrow> k | None \<Rightarrow> ''ve_'' @ ve_host vc),
                vc_data = outputs s \<rparr>)"

definition completedMessage :: message where
  "completedMessage =
     blankMessage\<lparr>m_command := Some ''Completed'', m_execute_on := Some ''ve'', m_exitCode := 0,
       m_result := RText ''All commands completed successfully'', m_stderr := [],
       m_finished := True, m_partial := Some False\<rparr>"

definition allSuccessful :: "icommand list \<Rightarrow> restartinfo option \<Rightarrow> bool" where
  "allSuccessful commands rc =
     (case rc of None \<Rightarrow> False | Some ri \<Rightarrow> lastSuccessfull ri = int (length commands) - 1)"

text \<open>
  \<open>run\<close>: the scopes are loaded from the checkpoint when there is one, the loop starts at
  \<open>lastSuccessfull + 1\<close> (an index below 0 meets no command until 0), and the last
  checkpoint is returned. An exception of \<open>buildVmContext\<close> leaves \<open>run\<close>.
\<close>

definition startIdx :: "restartinfo option \<Rightarrow> int" where
  "startIdx restartInfo = (case restartInfo of None \<Rightarrow> 0 | Some ri \<Rightarrow> lastSuccessfull ri + 1)"

definition run ::
    "env \<Rightarrow> icommand list \<Rightarrow> restartinfo option \<Rightarrow> state \<Rightarrow> (string + restartinfo option) \<times> state" where
  "run E commands restartInfo s =
     (case runLoop E (max 0 (startIdx restartInfo)) (drop (nat (startIdx restartInfo)) commands)
             (0, None, (case restartInfo of None \<Rightarrow> s | Some ri \<Rightarrow> restore ri s)) of
        (msgIndex, rc, s1) \<Rightarrow>
          if allSuccessful commands rc then
            (if restartInfo = None then
               (case buildVmContext E (emit completedMessage s1) of
                  Inl e \<Rightarrow> (Inl e, emit completedMessage s1)
                | Inr ctx \<Rightarrow>
                    (Inr rc, (emit completedMessage s1)
                       \<lparr>events := events (emit completedMessage s1) @ [Finished ctx]\<rparr>))
             else (Inr rc, emit completedMessage s1))
          else (Inr rc, s1))"

section \<open>Comparing a resumed run with an uninterrupted one\<close>

text \<open>
  The environment as an execution meets it that starts after \<open>c\<close> sessions have been made:
  its \<open>n\<close>-th session is session \<open>n + c\<close>.
\<close>

definition shifted :: "nat \<Rightarrow> env \<Rightarrow> env" where
  "shifted c E =
     E\<lparr>spawnAsync := (\<lambda>n. spawnAsync E (n + c)), nonce := (\<lambda>n. nonce E (n + c))\<rparr>"

text \<open>
  Two executions have the same scopes when they agree on everything but their logs and
  counters, the second being \<open>c\<close> sessions behind the first.
\<close>

definition sameScopes :: "nat \<Rightarrow> state \<Rightarrow> state \<Rightarrow> bool" where
  "sameScopes c s t \<longleftrightarrow>
     inputs t = inputs s \<and> outputs t = outputs s \<and> defaults t = defaults s
     \<and> outputsRaw t = outputsRaw s \<and> outputsRawResult t = outputsRawResult s
     \<and> spawns s = spawns t + c"

text \<open>
  What holds of every state an execution reaches: the keys of each scope are unique, and raw
  outputs received by the output processor have been taken over by the execution.
\<close>

definition wellFormed :: "state \<Rightarrow> bool" where
  "wellFormed s \<longleftrightarrow>
     distinct (map fst (inputs s)) \<and> distinct (map fst (outputs s))
     \<and> distinct (map fst (defaults s))
     \<and> (outputsRaw s = None \<longrightarrow> outputsRawResult s = None)"

text \<open>
  The part of well-formedness that the output processor can touch: the keys of outputs
  and defaults. It sets \<open>outputsRawResult\<close> only when it returns.
\<close>

definition keysOk :: "state \<Rightarrow> bool" where
  "keysOk s \<longleftrightarrow> distinct (map fst (outputs s)) \<and> distinct (map fst (defaults s))"

text \<open>Two results of a remote execution that agree up to the index of the message.\<close>

definition sameResult :: "string + message \<Rightarrow> string + message \<Rightarrow> bool" where
  "sameResult r r' \<longleftrightarrow> map_sum id m_result r = map_sum id m_result r'"

section \<open>What the output protocol asks of a step's records\<close>

text \<open>
  The three shapes of section 4.2 of the spec as one list of records: a \<open>{name, value}\<close>
  record is a record with that id and value and no default.
\<close>

definition specRecords :: "outputs_json \<Rightarrow> ioutput list" where
  "specRecords j =
     (case j of
        OSingle r \<Rightarrow> [r]
      | OArray rs \<Rightarrow> rs
      | ONameValues nvs \<Rightarrow> map (\<lambda>(n, v). \<lparr>o_id = n, o_value = Some v, o_default = None\<rparr>) nvs)"

text \<open>
  Step 4 of section 4.2 in the spec's words: a value that begins with \<open>local:\<close> is, in
  local mode, replaced by the base64 contents of the file; in remote mode, and for every
  other value, it is left untouched. \<open>specReadable\<close>: every such file can be read.
\<close>

definition specValue :: "env \<Rightarrow> val \<Rightarrow> val" where
  "specValue E v =
     (case v of
        VStr t \<Rightarrow>
          (if startsWith t ''local:'' \<and> sshCommand E \<noteq> ''ssh'' then
             (case localFileBase64 E (drop 6 t) of Inr b \<Rightarrow> VStr b | Inl e \<Rightarrow> v)
           else v)
      | _ \<Rightarrow> v)"

definition specReadable :: "env \<Rightarrow> outputs_json \<Rightarrow> bool" where
  "specReadable E j =
     list_all
       (\<lambda>r. case o_value r of
               Some (VStr t) \<Rightarrow>
                 (if startsWith t ''local:'' \<and> sshCommand E \<noteq> ''ssh'' then
                    (case localFileBase64 E (drop 6 t) of Inr b \<Rightarrow> True | Inl e \<Rightarrow> False)
                  else True)
             | _ \<Rightarrow> True)
       (specRecords j)"

text \<open>
  Step 3 of section 4.2 in the spec's words, read as a lookup: after the merge the output
  \<open>k\<close> is the value of the last record with the id \<open>k\<close> that has a value, and the output
  as it was when there is no such record; the default \<open>k\<close> is the default of the last
  record with the id \<open>k\<close> that has a default, and the default as it was otherwise.
\<close>

definition specOutputs :: "env \<Rightarrow> outputs_json \<Rightarrow> scope \<Rightarrow> string \<Rightarrow> val option" where
  "specOutputs E j outs k =
     (case find (\<lambda>r. o_id r = k \<and> o_value r \<noteq> None) (rev (specRecords j)) of
        Some r \<Rightarrow> map_option (specValue E) (o_value r)
      | None \<Rightarrow> map_get outs k)"

definition specDefaults :: "outputs_json \<Rightarrow> scope \<Rightarrow> string \<Rightarrow> val option" where
  "specDefaults j defs k =
     (case find (\<lambda>r. o_id r = k \<and> o_default r \<noteq> None) (rev (specRecords j)) of
        Some r \<Rightarrow> o_default r
      | None \<Rightarrow> map_get defs k)"

text \<open>The name/value array that a step hands over, with its values as stored.\<close>

definition specRaw :: "env \<Rightarrow> outputs_json \<Rightarrow> scope option" where
  "specRaw E j =
     (case j of
        ONameValues (nv # nvs) \<Rightarrow> Some (map (\<lambda>(n, v). (n, specValue E v)) (nv # nvs))
      | _ \<Rightarrow> None)"

text \<open>Every command of a list lets the loop of \<open>run\<close> go on to the next one.\<close>

fun allContinue :: "env \<Rightarrow> int \<Rightarrow> icommand list \<Rightarrow> runstate \<Rightarrow> bool" where
  "allContinue E i [] rs = True"
| "allContinue E i (cmd # cmds) rs =
     (case step E i cmd rs of
        (Continue, rs1) \<Rightarrow> allContinue E (i + 1) cmds rs1
      | (Break, rs1) \<Rightarrow> False)"

section \<open>A sample environment\<close>

text \<open>
  A local execution (\<open>sshCommand\<close> is \<open>sh\<close>) whose sessions answer from a list of results,
  with a decoder for the few output texts used below. The module is loaded by Node as the
  ES module it is, so \<open>require\<close> is not bound.
\<close>

definition sampleJson :: "string \<Rightarrow> string + outputs_json" where
  \<open>sampleJson t =
     (if t = ''{"id":"a","value":"1"}''
        then Inr (OSingle \<lparr>o_id = ''a'', o_value = Some (VStr ''1''), o_default = None\<rparr>)
      else if t = ''[{"id":"a","value":"2","default":"0"}]''
        then Inr (OArray [\<lparr>o_id = ''a'', o_value = Some (VStr ''2''),
                            o_default = Some (VStr ''0'')\<rparr>])
      else if t = ''[{"name":"b","value":"2"}]''
        then Inr (ONameValues [(''b'', VStr ''2'')])
      else if t = ''[{"id":"status","value":"installed"}]''
        then Inr (OArray [\<lparr>o_id = ''status'', o_value = Some (VStr ''installed''),
                            o_default = None\<rparr>])
      else Inl ''Unexpected token'')\<close>

definition failedProc :: proc where
  "failedProc = \<lparr>stdout = [], stderr = ''no session'', exitCode = 1, chunks = []\<rparr>"

definition sampleEnv :: "proc list \<Rightarrow> env" where
  "sampleEnv procs =
     \<lparr> sshCommand = ''sh'',
       veContext = Some \<lparr>ve_host = ''pve1'', ve_port = None, ve_key = None\<rparr>,
       scriptTimeoutMs = 120000,
       spawnAsync = (\<lambda>n rq. if n < length procs then procs ! n else failedProc),
       nonce = (\<lambda>n. ''0_x''),
       readFileSync = (\<lambda>path. Inl ''ENOENT: no such file or directory''),
       jsonOutputs = sampleJson,
       jsonProbe = (\<lambda>t. None),
       jsonEntries = (\<lambda>t. None),
       localFileBase64 = (\<lambda>path. Inl ''ENOENT: no such file or directory''),
       getVMContextByHostname = (\<lambda>h. None),
       probeScriptPath = ''json/shared/scripts/write-vmids-json.sh'',
       requireModule = (\<lambda>name. Inl ''require is not defined''),
       numberText = (\<lambda>t. None) \<rparr>"

definition printed :: "string \<Rightarrow> int \<Rightarrow> proc" where
  "printed out code = \<lparr>stdout = out, stderr = [], exitCode = code, chunks = []\<rparr>"

definition shellStep :: "string \<Rightarrow> string \<Rightarrow> icommand" where
  "shellStep target text =
     \<lparr> c_name = Some ''step'', c_description = None, c_execute_on = Some target,
       c_properties = None, c_script = None, c_command = Some text \<rparr>"

definition propertiesOnly :: "properties \<Rightarrow> icommand" where
  "propertiesOnly props =
     \<lparr> c_name = Some ''props'', c_description = None, c_execute_on = Some ''ve'',
       c_properties = Some props, c_script = None, c_command = None \<rparr>"

definition modeProperty :: property where
  "modeProperty = \<lparr>p_id = ''mode'', p_value = Some (Prim (VStr ''{{selected_mode}}''))\<rparr>"

definition flagProperty :: property where
  "flagProperty = \<lparr>p_id = ''a'', p_value = Some (Prim (VNum 1))\<rparr>"

text \<open>A property that copies the output \<open>a\<close>, and the last message of a step that sets it.\<close>

definition copyProperty :: property where
  "copyProperty = \<lparr>p_id = ''copy'', p_value = Some (Prim (VStr ''{{a}}''))\<rparr>"

definition setDone :: message where
  \<open>setDone = blankMessage\<lparr>m_commandtext := Some ''set'',
     m_result := RText ''{"id":"a","value":"1"}'', m_command := Some ''step'',
     m_execute_on := Some ''ve'', m_index := Some 0, m_partial := Some False\<rparr>\<close>

text \<open>
  The text of a step that prints one record with a value and a default, and the state after
  a properties step that has set the output \<open>a\<close> to 1.
\<close>

definition defaultRecord :: string where
  \<open>defaultRecord = ''[{"id":"a","value":"2","default":"0"}]''\<close>

definition afterFlag :: state where
  "afterFlag =
     emit (propertiesMessage (propertiesOnly (PropObject flagProperty)) (PropObject flagProperty) 0)
       ((construct [] [])\<lparr>outputs := [(''a'', VNum 1)]\<rparr>)"

section \<open>What the runner leaves unchanged\<close>

lemma emit_frame [simp]:
  "spawns (emit m s) = spawns s" "sleeps (emit m s) = sleeps s"
  "inputs (emit m s) = inputs s" "outputs (emit m s) = outputs s"
  "defaults (emit m s) = defaults s" "outputsRaw (emit m s) = outputsRaw s"
  "outputsRawResult (emit m s) = outputsRawResult s" "gindex (emit m s) = gindex s"
  "events (emit m s) = events s @ [Message m]"
  by (simp_all add: emit_def)

lemma emitChunks_frame [simp]:
  "spawns (emitChunks tmpl input chs s) = spawns s"
  "sleeps (emitChunks tmpl input chs s) = sleeps s"
  "inputs (emitChunks tmpl input chs s) = inputs s"
  "outputs (emitChunks tmpl input chs s) = outputs s"
  "defaults (emitChunks tmpl input chs s) = defaults s"
  "outputsRaw (emitChunks tmpl input chs s) = outputsRaw s"
  "outputsRawResult (emitChunks tmpl input chs s) = outputsRawResult s"
  "gindex (emitChunks tmpl input chs s) = gindex s"
  by (induction chs arbitrary: s) simp_all

lemma nameValueLoop_frame:
  "spawns (snd (nameValueLoop E nvs raw s)) = spawns s \<and>
   sleeps (snd (nameValueLoop E nvs raw s)) = sleeps s \<and>
   events (snd (nameValueLoop E nvs raw s)) = events s \<and>
   inputs (snd (nameValueLoop E nvs raw s)) = inputs s \<and>
   gindex (snd (nameValueLoop E nvs raw s)) = gindex s \<and>
   outputsRaw (snd (nameValueLoop E nvs raw s)) = outputsRaw s"
  by (induction E nvs raw s rule: nameValueLoop.induct) (auto split: sum.splits)

lemma storeOutput_frame:
  "spawns (snd (storeOutput E entry s)) = spawns s \<and>
   sleeps (snd (storeOutput E entry s)) = sleeps s \<and>
   events (snd (storeOutput E entry s)) = events s \<and>
   inputs (snd (storeOutput E entry s)) = inputs s \<and>
   gindex (snd (storeOutput E entry s)) = gindex s \<and>
   outputsRaw (snd (storeOutput E entry s)) = outputsRaw s"
  by (auto simp: storeOutput_def split: sum.splits option.splits)

lemma outputLoop_frame:
  "spawns (snd (outputLoop E entries s)) = spawns s \<and>
   sleeps (snd (outputLoop E entries s)) = sleeps s \<and>
   events (snd (outputLoop E entries s)) = events s \<and>
   inputs (snd (outputLoop E entries s)) = inputs s \<and>
   gindex (snd (outputLoop E entries s)) = gindex s \<and>
   outputsRaw (snd (outputLoop E entries s)) = outputsRaw s"
proof (induction entries arbitrary: s)
  case Nil
  show ?case by simp
next
  case (Cons entry entries)
  obtain r s1 where st: "storeOutput E entry s = (r, s1)"
    by (cases "storeOutput E entry s")
  have f: "spawns s1 = spawns s \<and> sleeps s1 = sleeps s \<and> events s1 = events s \<and>
           inputs s1 = inputs s \<and> gindex s1 = gindex s \<and> outputsRaw s1 = outputsRaw s"
    using storeOutput_frame [of E entry s] st by simp
  show ?case using Cons.IH [of s1] st f by (cases r) simp_all
qed

lemma applyOutputs_frame:
  "spawns (snd (applyOutputs E j s)) = spawns s \<and>
   sleeps (snd (applyOutputs E j s)) = sleeps s \<and>
   events (snd (applyOutputs E j s)) = events s \<and>
   inputs (snd (applyOutputs E j s)) = inputs s \<and>
   gindex (snd (applyOutputs E j s)) = gindex s \<and>
   outputsRaw (snd (applyOutputs E j s)) = outputsRaw s"
proof (cases j)
  case (OSingle obj)
  then show ?thesis using storeOutput_frame [of E obj s] by (simp add: applyOutputs_def)
next
  case (OArray entries)
  then show ?thesis using outputLoop_frame [of E entries s] by (simp add: applyOutputs_def)
next
  case (ONameValues nvs)
  show ?thesis
  proof (cases nvs)
    case Nil
    with ONameValues show ?thesis by (simp add: applyOutputs_def)
  next
    case (Cons nv rest)
    obtain r s1 where l: "nameValueLoop E (nv # rest) [] s = (r, s1)"
      by (cases "nameValueLoop E (nv # rest) [] s")
    have "spawns s1 = spawns s \<and> sleeps s1 = sleeps s \<and> events s1 = events s \<and>
          inputs s1 = inputs s \<and> gindex s1 = gindex s \<and> outputsRaw s1 = outputsRaw s"
      using nameValueLoop_frame [of E "nv # rest" "[]" s] l by simp
    with ONameValues Cons l show ?thesis by (cases r) (simp_all add: applyOutputs_def)
  qed
qed

lemma parseAndUpdateOutputs_frame:
  "spawns (snd (parseAndUpdateOutputs E out marker s)) = spawns s \<and>
   sleeps (snd (parseAndUpdateOutputs E out marker s)) = sleeps s \<and>
   events (snd (parseAndUpdateOutputs E out marker s)) = events s \<and>
   inputs (snd (parseAndUpdateOutputs E out marker s)) = inputs s \<and>
   gindex (snd (parseAndUpdateOutputs E out marker s)) = gindex s \<and>
   outputsRaw (snd (parseAndUpdateOutputs E out marker s)) = outputsRaw s"
  using applyOutputs_frame [of E _ s]
  by (auto simp: parseAndUpdateOutputs_def split: sum.splits)

lemma finishRun_frame:
  "spawns (snd (finishRun E input tmpl marker p s)) = spawns s \<and>
   sleeps (snd (finishRun E input tmpl marker p s)) = sleeps s \<and>
   inputs (snd (finishRun E input tmpl marker p s)) = inputs s"
proof -
  obtain r s1 where pa: "parseAndUpdateOutputs E (stdout p) marker s = (r, s1)"
    by (cases "parseAndUpdateOutputs E (stdout p) marker s")
  have f: "spawns s1 = spawns s \<and> sleeps s1 = sleeps s \<and> inputs s1 = inputs s"
    using parseAndUpdateOutputs_frame [of E "stdout p" marker s] pa by simp
  show ?thesis
    using pa f by (cases r) (auto simp: finishRun_def Let_def split: option.splits)
qed

text \<open>The retry loop from a retry count of 0, written out: at most three sessions.\<close>

lemma spawnLoop_unfold3:
  "spawnLoop E rq tmpl input 0 None s =
     (let p0 = spawnAsync E (spawns s) rq;
          s0 = emitChunks tmpl input (chunks p0) (s\<lparr>spawns := Suc (spawns s)\<rparr>)
      in if exitCode p0 \<noteq> 255 then (Some p0, s0)
         else
           (let p1 = spawnAsync E (Suc (spawns s)) rq;
                s1 = emitChunks tmpl input (chunks p1)
                       (s0\<lparr>sleeps := sleeps s @ [3000], spawns := Suc (Suc (spawns s))\<rparr>)
            in if exitCode p1 \<noteq> 255 then (Some p1, s1)
               else
                 (let p2 = spawnAsync E (Suc (Suc (spawns s))) rq
                  in (Some p2,
                      emitChunks tmpl input (chunks p2)
                        (s1\<lparr>sleeps := sleeps s @ [3000, 3000],
                            spawns := Suc (Suc (Suc (spawns s)))\<rparr>)))))"
  apply (subst spawnLoop.simps)
  apply (subst spawnLoop.simps)
  apply (subst spawnLoop.simps)
  apply (simp add: maxRetries_def Let_def)
  done

lemma spawnLoop_scopes:
  "spawnLoop E rq tmpl input 0 None s = (r, s1) \<Longrightarrow>
     inputs s1 = inputs s \<and> outputs s1 = outputs s \<and> defaults s1 = defaults s \<and>
     outputsRaw s1 = outputsRaw s \<and> outputsRawResult s1 = outputsRawResult s \<and>
     gindex s1 = gindex s"
  by (auto simp: spawnLoop_unfold3 Let_def split: if_splits)

section \<open>Evaluation of the sample environment\<close>

lemma construct_simps [simp]:
  "spawns (construct inps defs) = 0" "sleeps (construct inps defs) = []"
  "outputs (construct inps defs) = []" "defaults (construct inps defs) = defs"
  "inputs (construct inps defs) = set_all inps []" "events (construct inps defs) = []"
  "outputsRaw (construct inps defs) = None" "outputsRawResult (construct inps defs) = None"
  "gindex (construct inps defs) = 0"
  by (simp_all add: construct_def)

lemma sampleEnv_simps [simp]:
  "sshCommand (sampleEnv procs) = ''sh''"
  "spawnAsync (sampleEnv procs) n rq = (if n < length procs then procs ! n else failedProc)"
  "nonce (sampleEnv procs) n = ''0_x''"
  "jsonOutputs (sampleEnv procs) = sampleJson"
  "veContext (sampleEnv procs) = Some \<lparr>ve_host = ''pve1'', ve_port = None, ve_key = None\<rparr>"
  "jsonEntries (sampleEnv procs) t = None"
  "readFileSync (sampleEnv procs) path = Inl ''ENOENT: no such file or directory''"
  "requireModule (sampleEnv procs) name = Inl ''require is not defined''"
  by (simp_all add: sampleEnv_def)

lemma printed_simps [simp]:
  "stdout (printed out code) = out" "stderr (printed out code) = []"
  "exitCode (printed out code) = code" "chunks (printed out code) = []"
  by (simp_all add: printed_def)

lemma mode_not_defined [simp]:
  "resolveProperty (construct [] []) modeProperty = NotDefined"
  by (simp add: resolveProperty_def modeProperty_def replaceVars_def replaceVarsWithContext_def
        lookupVar_def map_get_def trim_def isSpace_def)

lemma not_skipped [simp]:
  "isSkipped (shellStep target text) = False" "isSkipped (propertiesOnly props) = False"
  by (simp_all add: isSkipped_def shellStep_def propertiesOnly_def includesStr_def startsWith_def)

lemma sample_fields [simp]:
  "c_properties (shellStep target text) = None" "c_script (shellStep target text) = None"
  "c_command (shellStep target text) = Some text"
  "c_execute_on (shellStep target text) = Some target"
  "c_name (shellStep target text) = Some ''step''"
  "c_properties (propertiesOnly props) = Some props"
  "c_name (propertiesOnly props) = Some ''props''"
  "c_execute_on (propertiesOnly props) = Some ''ve''"
  by (simp_all add: shellStep_def propertiesOnly_def)

lemma sample_args [simp]:
  "sshArgsOf (sampleEnv procs) None = Inr []"
  by (simp add: sshArgsOf_def)

lemma flag_stored [simp]:
  "resolveProperty s flagProperty = Store (VNum 1)" "p_id flagProperty = ''a''"
  by (simp_all add: resolveProperty_def flagProperty_def)

lemmas run_eval = run_def startIdx_def step_def propertiesStep_def allSuccessful_def
  dispatch_def findVmId_def falsy_def isStringOrNumber_def map_get_def runOnVeHost_def
  runOnLxc_def spawnLoop_unfold3 finishRun_def Let_def trim_def isSpace_def caught_def
  succeeded_def fallback_def checkpoint_def buildVmContext_def


lemma sample_outputs_json [simp]:
  \<open>sampleJson ''{"id":"a","value":"1"}''
     = Inr (OSingle \<lparr>o_id = ''a'', o_value = Some (VStr ''1''), o_default = None\<rparr>)\<close>
  \<open>sampleJson ''[{"name":"b","value":"2"}]'' = Inr (ONameValues [(''b'', VStr ''2'')])\<close>
  by (simp_all add: sampleJson_def)

lemma sample_clean [simp]:
  \<open>cleanStdout ''{"id":"a","value":"1"}'' ''LXC_MANAGER_JSON_START_MARKER_0_x''
     = ''{"id":"a","value":"1"}''\<close>
  \<open>cleanStdout ''[{"name":"b","value":"2"}]'' ''LXC_MANAGER_JSON_START_MARKER_0_x''
     = ''[{"name":"b","value":"2"}]''\<close>
  \<open>trim ''{"id":"a","value":"1"}'' = ''{"id":"a","value":"1"}''\<close>
  \<open>trim ''[{"name":"b","value":"2"}]'' = ''[{"name":"b","value":"2"}]''\<close>
  by (simp_all add: cleanStdout_def trim_def isSpace_def startsWith_def Let_def)

lemma sample_parse [simp]:
  \<open>parseAndUpdateOutputs (sampleEnv procs) ''{"id":"a","value":"1"}''
      ''LXC_MANAGER_JSON_START_MARKER_0_x'' s
     = (Inr (), s\<lparr>outputs := map_set ''a'' (VStr ''1'') (outputs s)\<rparr>)\<close>
  \<open>parseAndUpdateOutputs (sampleEnv procs) ''[{"name":"b","value":"2"}]''
      ''LXC_MANAGER_JSON_START_MARKER_0_x'' s
     = (Inr (), s\<lparr>outputs := map_set ''b'' (VStr ''2'') (outputs s),
                   outputsRawResult := Some [(''b'', VStr ''2'')]\<rparr>)\<close>
  by (simp_all add: parseAndUpdateOutputs_def applyOutputs_def storeOutput_def
        processLocalFileValue_def startsWith_def)

lemma set_text [simp]: "replaceVars outs ins defs ''set'' = ''set''"
  by (simp add: replaceVars_def replaceVarsWithContext_def)

lemma copy_resolved [simp]:
  "resolveProperty s copyProperty =
     (case map_get (outputs s) ''a'' of
        Some v \<Rightarrow> if showVal v = ''NOT_DEFINED'' then NotDefined else Store (VStr (showVal v))
      | None \<Rightarrow> (case map_get (inputs s) ''a'' of
        Some v \<Rightarrow> if showVal v = ''NOT_DEFINED'' then NotDefined else Store (VStr (showVal v))
      | None \<Rightarrow> (case map_get (defaults s) ''a'' of
        Some v \<Rightarrow> if showVal v = ''NOT_DEFINED'' then NotDefined else Store (VStr (showVal v))
      | None \<Rightarrow> NotDefined)))"
  "p_id copyProperty = ''copy''"
  by (simp_all add: resolveProperty_def copyProperty_def replaceVars_def
        replaceVarsWithContext_def lookupVar_def map_get_def trim_def isSpace_def
        split: option.splits)

lemma list_text [simp]: "replaceVars outs ins defs ''list'' = ''list''"
  by (simp add: replaceVars_def replaceVarsWithContext_def)

lemmas loop_eval = step_def propertiesStep_def dispatch_def runOnVeHost_def
  spawnLoop_unfold3 finishRun_def Let_def caught_def succeeded_def fallback_def
  checkpoint_def map_get_def markerOf_def

lemma afterFlag_fields [simp]:
  "outputs afterFlag = [(''a'', VNum 1)]" "inputs afterFlag = []" "defaults afterFlag = []"
  "spawns afterFlag = 0" "outputsRaw afterFlag = None" "outputsRawResult afterFlag = None"
  "sleeps afterFlag = []"
  by (simp_all add: afterFlag_def)

lemma defaultRecord_clean [simp]:
  "cleanStdout defaultRecord ''LXC_MANAGER_JSON_START_MARKER_0_x'' = defaultRecord"
  "sampleJson defaultRecord
     = Inr (OArray [\<lparr>o_id = ''a'', o_value = Some (VStr ''2''), o_default = Some (VStr ''0'')\<rparr>])"
  "defaultRecord \<noteq> []"
  by (simp_all add: defaultRecord_def cleanStdout_def trim_def isSpace_def startsWith_def Let_def
        sampleJson_def)

section \<open>Retry on exit code 255\<close>

text \<open>
  Claim C3. A remote execution retries the same request only while the session exits with
  255: with \<open>p k\<close> the result of the \<open>k\<close>-th session of this execution, the number \<open>n\<close> of
  sessions is 1 when the first exit code is not 255, 2 when only the first is 255, and 3
  otherwise, never more. The processed result is that of session \<open>n\<close>, and one wait of
  3000 ms lies between two sessions.
\<close>

theorem retry_on_255:
  assumes "sshArgsOf E remoteCommand = Inr args"
  shows "let rq = requestOf E args timeoutMs (markerOf E s) input;
             p = (\<lambda>k. spawnAsync E (spawns s + k) rq);
             n = (if exitCode (p 0) \<noteq> 255 then 1 else if exitCode (p 1) \<noteq> 255 then 2 else 3)
         in \<exists>s1. spawnLoop E rq tmpl input 0 None s = (Some (p (n - 1)), s1)
              \<and> runOnVeHost E input tmpl timeoutMs remoteCommand s =
                  finishRun E input tmpl (markerOf E s) (p (n - 1)) s1
              \<and> spawns (snd (runOnVeHost E input tmpl timeoutMs remoteCommand s)) = spawns s + n
              \<and> sleeps (snd (runOnVeHost E input tmpl timeoutMs remoteCommand s)) =
                  sleeps s @ replicate (n - 1) 3000"
  using assms
  by (auto simp: Let_def runOnVeHost_def spawnLoop_unfold3 finishRun_frame numeral_2_eq_2)

text \<open>Three sessions that all exit with 255: three attempts, two waits, no fourth session.\<close>

text \<open>Three sessions that all exit with 255: three attempts, two waits, no fourth session.\<close>

theorem retry_on_255_witness:
  "sshArgsOf (sampleEnv [printed [] 255, printed [] 255, printed [] 255, printed [] 0]) None
     = Inr []
   \<and> spawns (snd (runOnVeHost
        (sampleEnv [printed [] 255, printed [] 255, printed [] 255, printed [] 0])
        ''true'' (shellStep ''ve'' ''true'') None None (construct [] []))) = 3
   \<and> sleeps (snd (runOnVeHost
        (sampleEnv [printed [] 255, printed [] 255, printed [] 255, printed [] 0])
        ''true'' (shellStep ''ve'' ''true'') None None (construct [] []))) = [3000, 3000]"
proof -
  let ?E = "sampleEnv [printed [] 255, printed [] 255, printed [] 255, printed [] 0]"
  have a: "sshArgsOf ?E None = Inr []"
    by (simp add: sshArgsOf_def)
  show ?thesis
    using a retry_on_255 [OF a, of None "construct [] []" "''true''" "shellStep ''ve'' ''true''"]
    by (auto simp: Let_def numeral_3_eq_3)
qed

section \<open>Empty standard output\<close>

text \<open>
  Claim C7. When the standard output of the last session of a remote execution is empty
  after trimming: with exit code 0 the execution returns a message with the result \<open>OK\<close>
  and exit code 0, which it emits; with any other exit code it throws, after emitting a
  message with the result \<open>ERROR\<close>, the exit code, an error and the captured standard
  error. In both cases inputs, outputs, defaults and raw outputs are left as they were.
\<close>

theorem empty_stdout_outcome:
  assumes "sshArgsOf E remoteCommand = Inr args"
    and "spawnLoop E (requestOf E args timeoutMs (markerOf E s) input) tmpl input 0 None s
           = (Some p, s1)"
    and "trim (stdout p) = []"
  shows "(if exitCode p = 0 then
            (\<exists>m. runOnVeHost E input tmpl timeoutMs remoteCommand s
                    = (Inr m, emit m (s1\<lparr>gindex := Suc (gindex s1)\<rparr>))
                 \<and> m_result m = RText ''OK'' \<and> m_exitCode m = 0 \<and> m_error m = None
                 \<and> m_partial m = Some False)
          else
            (\<exists>m. runOnVeHost E input tmpl timeoutMs remoteCommand s
                    = (Inl (failText (c_name tmpl) (exitCode p) (stderr p)), emit m s1)
                 \<and> m_result m = RText ''ERROR'' \<and> m_exitCode m = exitCode p
                 \<and> m_stderr m = stderr p \<and> m_error m \<noteq> None \<and> m_partial m = Some False))
         \<and> inputs (snd (runOnVeHost E input tmpl timeoutMs remoteCommand s)) = inputs s
         \<and> outputs (snd (runOnVeHost E input tmpl timeoutMs remoteCommand s)) = outputs s
         \<and> defaults (snd (runOnVeHost E input tmpl timeoutMs remoteCommand s)) = defaults s
         \<and> outputsRaw (snd (runOnVeHost E input tmpl timeoutMs remoteCommand s)) = outputsRaw s"
  using assms spawnLoop_scopes [OF assms(2)]
  by (fastforce simp: runOnVeHost_def finishRun_def Let_def blankMessage_def)

text \<open>A session that prints only blanks and exits with 2.\<close>

theorem empty_stdout_outcome_witness:
  "sshArgsOf (sampleEnv [printed ''  '' 2]) None = Inr []
   \<and> spawnLoop (sampleEnv [printed ''  '' 2])
        (requestOf (sampleEnv [printed ''  '' 2]) [] None
           (markerOf (sampleEnv [printed ''  '' 2]) (construct [] [])) ''true'')
        (shellStep ''ve'' ''true'') ''true'' 0 None (construct [] [])
        = (Some (printed ''  '' 2), (construct [] [])\<lparr>spawns := 1\<rparr>)
   \<and> trim (stdout (printed ''  '' 2)) = []
   \<and> fst (runOnVeHost (sampleEnv [printed ''  '' 2]) ''true'' (shellStep ''ve'' ''true'')
            None None (construct [] []))
        = Inl (failText (Some ''step'') 2 [])
   \<and> outputs (snd (runOnVeHost (sampleEnv [printed ''  '' 2]) ''true''
        (shellStep ''ve'' ''true'') None None (construct [] []))) = []"
proof -
  let ?E = "sampleEnv [printed ''  '' 2]"
  have a: "sshArgsOf ?E None = Inr []"
    by (simp add: sshArgsOf_def)
  have b: "spawnLoop ?E (requestOf ?E [] None (markerOf ?E (construct [] [])) ''true'')
             (shellStep ''ve'' ''true'') ''true'' 0 None (construct [] [])
           = (Some (printed ''  '' 2), (construct [] [])\<lparr>spawns := 1\<rparr>)"
    by (simp add: spawnLoop_unfold3 Let_def)
  have c: "trim (stdout (printed ''  '' 2)) = []"
    by (simp add: trim_def isSpace_def)
  show ?thesis
    using a b c empty_stdout_outcome [OF a b c]
    by (auto simp: shellStep_def)
qed

section \<open>Variable resolution\<close>

lemma includes_pair_Nil [simp]: "includesStr [] [a, b] = False"
  by (simp add: includesStr_def)

lemma includes_pair_Cons:
  "includesStr (c # cs) [a, b] \<longleftrightarrow> (c = a \<and> take 1 cs = [b]) \<or> includesStr cs [a, b]"
  by (cases cs) (auto simp: includesStr_def startsWith_def)

lemma subst_prefix:
  "\<not> includesStr (pre @ ''{'') ''{{'' \<Longrightarrow> subst f None (pre @ t) = pre @ subst f None t"
proof (induction pre)
  case Nil
  show ?case by simp
next
  case (Cons c pre)
  from Cons.prems have ih: "subst f None (pre @ t) = pre @ subst f None t"
    and c: "\<not> (c = CHR ''{'' \<and> take 1 (pre @ ''{'') = ''{'')"
    using Cons.IH by (auto simp: includes_pair_Cons)
  show ?case
  proof (cases pre)
    case Nil
    with c have "c \<noteq> CHR ''{''" by simp
    with Nil show ?thesis by (cases t) simp_all
  next
    case (Cons d ds)
    with c ih show ?thesis by auto
  qed
qed

lemma subst_inside:
  "\<not> includesStr (name @ ''}'') ''}}'' \<Longrightarrow>
     subst f (Some acc) (name @ ''}}'' @ rest) = f (trim (rev acc @ name)) @ subst f None rest"
proof (induction name arbitrary: acc)
  case Nil
  show ?case by simp
next
  case (Cons c name)
  from Cons.prems have ih: "\<And>acc. subst f (Some acc) (name @ ''}}'' @ rest)
                   = f (trim (rev acc @ name)) @ subst f None rest"
    and c: "\<not> (c = CHR ''}'' \<and> take 1 (name @ ''}'') = ''}'')"
    using Cons.IH by (auto simp: includes_pair_Cons)
  show ?case
  proof (cases name)
    case Nil
    with c have "c \<noteq> CHR ''}''" by simp
    with Nil show ?thesis by simp
  next
    case (Cons d ds)
    with c ih [of "c # acc"] show ?thesis by auto
  qed
qed

lemma token_step:
  assumes "\<not> includesStr (pre @ ''{'') ''{{''" and "\<not> includesStr (name @ ''}'') ''}}''"
  shows "subst f None (pre @ ''{{'' @ name @ ''}}'' @ rest)
           = pre @ f (trim name) @ subst f None rest"
proof -
  have "subst f None (pre @ ''{{'' @ name @ ''}}'' @ rest)
          = pre @ subst f None (''{{'' @ name @ ''}}'' @ rest)"
    using assms(1) by (rule subst_prefix)
  also have "subst f None (''{{'' @ name @ ''}}'' @ rest)
               = subst f (Some []) (name @ ''}}'' @ rest)"
    by simp
  also have "\<dots> = f (trim (rev [] @ name)) @ subst f None rest"
    using assms(2) by (rule subst_inside)
  finally show ?thesis by simp
qed

lemma subst_plain: "\<not> includesStr t ''{{'' \<Longrightarrow> subst f None t = t"
proof (induction t)
  case Nil
  show ?case by simp
next
  case (Cons c t)
  then show ?case by (cases t) (auto simp: includes_pair_Cons)
qed

lemma subst_unclosed:
  "\<not> includesStr t ''}}'' \<Longrightarrow> subst f (Some acc) t = ''{{'' @ rev acc @ t"
proof (induction t arbitrary: acc)
  case Nil
  show ?case by simp
next
  case (Cons c t)
  then show ?case by (cases t) (auto simp: includes_pair_Cons)
qed

lemma no_open_value:
  "\<not> includesStr (pre @ ''{'') ''{{'' \<Longrightarrow> CHR ''{'' \<notin> set v \<Longrightarrow>
     \<not> includesStr ((pre @ v) @ ''{'') ''{{''"
proof (induction pre)
  case Nil
  then show ?case by (induction v) (auto simp: includes_pair_Cons)
next
  case (Cons c pre)
  then show ?case by (cases pre; cases v) (auto simp: includes_pair_Cons)
qed


text \<open>
  Claim C9. In a text whose first opening \<open>{{\<close> is followed by a name up to the first
  closing \<open>}}\<close> (single braces may stand anywhere before, inside and after the token), the
  token is replaced by the string form of the first value defined for the trimmed name in
  the order override context, outputs, inputs, defaults, and by \<open>NOT_DEFINED\<close> when none
  defines it; the text before the token is kept and the rest of the text is resolved in the
  same way. \<open>replaceVars\<close> is the same without an override context. For a host-discovery
  step the payload is resolved with the recorded data of the host as the override context
  first, and the result is resolved with the outputs as the override context; when the
  value of the token has no opening brace, the second pass leaves it as the first wrote it.
  A text without \<open>{{\<close> is left as it is. The resolver has no error value: its result is
  always a text.
\<close>

theorem token_precedence:
  assumes "\<not> includesStr (pre @ ''{'') ''{{''" and "\<not> includesStr (name @ ''}'') ''}}''"
  shows "replaceVarsWithContext ctx outs ins defs (pre @ ''{{'' @ name @ ''}}'' @ rest) =
           pre @
           (case map_get ctx (trim name) of Some v \<Rightarrow> showVal v
            | None \<Rightarrow> (case map_get outs (trim name) of Some v \<Rightarrow> showVal v
            | None \<Rightarrow> (case map_get ins (trim name) of Some v \<Rightarrow> showVal v
            | None \<Rightarrow> (case map_get defs (trim name) of Some v \<Rightarrow> showVal v
            | None \<Rightarrow> ''NOT_DEFINED'')))) @
           replaceVarsWithContext ctx outs ins defs rest
         \<and> replaceVars outs ins defs (pre @ ''{{'' @ name @ ''}}'' @ rest) =
           pre @
           (case map_get outs (trim name) of Some v \<Rightarrow> showVal v
            | None \<Rightarrow> (case map_get ins (trim name) of Some v \<Rightarrow> showVal v
            | None \<Rightarrow> (case map_get defs (trim name) of Some v \<Rightarrow> showVal v
            | None \<Rightarrow> ''NOT_DEFINED''))) @
           replaceVars outs ins defs rest
         \<and> hostPayload data s (pre @ ''{{'' @ name @ ''}}'' @ rest) =
           replaceVarsWithContext (outputs s) (outputs s) (inputs s) (defaults s)
             (pre @
              (case map_get data (trim name) of Some v \<Rightarrow> showVal v
               | None \<Rightarrow> (case map_get (outputs s) (trim name) of Some v \<Rightarrow> showVal v
               | None \<Rightarrow> (case map_get (inputs s) (trim name) of Some v \<Rightarrow> showVal v
               | None \<Rightarrow> (case map_get (defaults s) (trim name) of Some v \<Rightarrow> showVal v
               | None \<Rightarrow> ''NOT_DEFINED'')))) @
              replaceVarsWithContext data (outputs s) (inputs s) (defaults s) rest)
         \<and> (CHR ''{'' \<notin> set (lookupVar data (outputs s) (inputs s) (defaults s) (trim name)) \<longrightarrow>
              hostPayload data s (pre @ ''{{'' @ name @ ''}}'' @ rest) =
                pre @ lookupVar data (outputs s) (inputs s) (defaults s) (trim name) @
                hostPayload data s rest)
         \<and> (\<not> includesStr rest ''{{'' \<longrightarrow>
              replaceVarsWithContext ctx outs ins defs rest = rest
              \<and> replaceVars outs ins defs rest = rest \<and> hostPayload data s rest = rest)"
proof -
  note step = token_step [OF assms]
  have a: "replaceVarsWithContext ctx outs ins defs (pre @ ''{{'' @ name @ ''}}'' @ rest) =
             pre @ lookupVar ctx outs ins defs (trim name) @
             replaceVarsWithContext ctx outs ins defs rest" for ctx outs ins defs
    unfolding replaceVarsWithContext_def by (rule step)
  have b: "hostPayload data s (pre @ ''{{'' @ name @ ''}}'' @ rest) =
             pre @ lookupVar data (outputs s) (inputs s) (defaults s) (trim name) @
             hostPayload data s rest"
    if "CHR ''{'' \<notin> set (lookupVar data (outputs s) (inputs s) (defaults s) (trim name))"
  proof -
    let ?v = "lookupVar data (outputs s) (inputs s) (defaults s) (trim name)"
    let ?r = "replaceVarsWithContext data (outputs s) (inputs s) (defaults s) rest"
    have "hostPayload data s (pre @ ''{{'' @ name @ ''}}'' @ rest)
            = replaceVarsWithContext (outputs s) (outputs s) (inputs s) (defaults s)
                ((pre @ ?v) @ ?r)"
      unfolding hostPayload_def a by simp
    also have "\<dots> = (pre @ ?v) @ hostPayload data s rest"
      unfolding hostPayload_def replaceVarsWithContext_def
      using no_open_value [OF assms(1) that] by (rule subst_prefix)
    finally show ?thesis by simp
  qed
  have c: "replaceVarsWithContext ctx outs ins defs rest = rest"
    if "\<not> includesStr rest ''{{''" for ctx outs ins defs
    unfolding replaceVarsWithContext_def using that by (rule subst_plain)
  show ?thesis
    using a [of ctx outs ins defs] a [of "[]" outs ins defs]
      a [of data "outputs s" "inputs s" "defaults s"] b c
    by (simp add: replaceVars_def hostPayload_def lookupVar_def map_get_def)
qed

text \<open>A token of \<open>map-disk-device.sh\<close> after the single braces of \<open>${mp}\<close>.\<close>

theorem token_precedence_witness:
  "\<not> includesStr (''-${mp} '' @ ''{'') ''{{'' \<and> \<not> includesStr ('' disk_on_ve '' @ ''}'') ''}}''
   \<and> CHR ''{'' \<notin> set (lookupVar [(''disk_on_ve'', VStr ''/dev/sdb'')]
                         (outputs ((construct [(''disk_on_ve'', VStr ''/dev/sdc'')] [])
                            \<lparr>outputs := [(''disk_on_ve'', VStr ''/dev/sda'')]\<rparr>))
                         (inputs ((construct [(''disk_on_ve'', VStr ''/dev/sdc'')] [])
                            \<lparr>outputs := [(''disk_on_ve'', VStr ''/dev/sda'')]\<rparr>))
                         (defaults ((construct [(''disk_on_ve'', VStr ''/dev/sdc'')] [])
                            \<lparr>outputs := [(''disk_on_ve'', VStr ''/dev/sda'')]\<rparr>))
                         (trim '' disk_on_ve ''))
   \<and> \<not> includesStr '',backup=0'' ''{{''
   \<and> replaceVarsWithContext [(''disk_on_ve'', VStr ''/dev/sdb'')]
        [(''disk_on_ve'', VStr ''/dev/sda'')] [(''disk_on_ve'', VStr ''/dev/sdc'')] []
        (''-${mp} '' @ ''{{'' @ '' disk_on_ve '' @ ''}}'' @ '',backup=0'')
       = ''-${mp} /dev/sdb,backup=0''
   \<and> replaceVars [(''disk_on_ve'', VStr ''/dev/sda'')] [(''disk_on_ve'', VStr ''/dev/sdc'')] []
        (''-${mp} '' @ ''{{'' @ '' disk_on_ve '' @ ''}}'' @ '',backup=0'')
       = ''-${mp} /dev/sda,backup=0''
   \<and> replaceVars [] [] []
        (''-${mp} '' @ ''{{'' @ '' disk_on_ve '' @ ''}}'' @ '',backup=0'')
       = ''-${mp} NOT_DEFINED,backup=0''
   \<and> hostPayload [(''disk_on_ve'', VStr ''/dev/sdb'')]
        ((construct [(''disk_on_ve'', VStr ''/dev/sdc'')] [])
           \<lparr>outputs := [(''disk_on_ve'', VStr ''/dev/sda'')]\<rparr>)
        (''-${mp} '' @ ''{{'' @ '' disk_on_ve '' @ ''}}'' @ '',backup=0'')
       = ''-${mp} /dev/sdb,backup=0''"
proof -
  let ?s = "(construct [(''disk_on_ve'', VStr ''/dev/sdc'')] [])
              \<lparr>outputs := [(''disk_on_ve'', VStr ''/dev/sda'')]\<rparr>"
  have a: "\<not> includesStr (''-${mp} '' @ ''{'') ''{{''"
    by (simp add: includesStr_def startsWith_def)
  have b: "\<not> includesStr ('' disk_on_ve '' @ ''}'') ''}}''"
    by (simp add: includesStr_def startsWith_def)
  have c: "\<not> includesStr '',backup=0'' ''{{''"
    by (simp add: includesStr_def startsWith_def)
  have t: "trim '' disk_on_ve '' = ''disk_on_ve''" by (simp add: trim_def isSpace_def)
  have v: "CHR ''{'' \<notin> set (lookupVar [(''disk_on_ve'', VStr ''/dev/sdb'')] (outputs ?s)
                           (inputs ?s) (defaults ?s) (trim '' disk_on_ve ''))"
    by (simp add: t lookupVar_def map_get_def)
  note T = token_precedence [OF a b, of "[(''disk_on_ve'', VStr ''/dev/sdb'')]"
        "[(''disk_on_ve'', VStr ''/dev/sda'')]" "[(''disk_on_ve'', VStr ''/dev/sdc'')]" "[]"
        "'',backup=0''" "[(''disk_on_ve'', VStr ''/dev/sdb'')]" ?s]
  note U = token_precedence [OF a b, of "[]" "[]" "[]" "[]" "'',backup=0''" "[]" ?s]
  note plainT = T [THEN conjunct2, THEN conjunct2, THEN conjunct2, THEN conjunct2, rule_format, OF c]
  note plainU = U [THEN conjunct2, THEN conjunct2, THEN conjunct2, THEN conjunct2, rule_format, OF c]
  have r1: "replaceVarsWithContext [(''disk_on_ve'', VStr ''/dev/sdb'')]
        [(''disk_on_ve'', VStr ''/dev/sda'')] [(''disk_on_ve'', VStr ''/dev/sdc'')] []
        (''-${mp} '' @ ''{{'' @ '' disk_on_ve '' @ ''}}'' @ '',backup=0'')
       = ''-${mp} /dev/sdb,backup=0''"
    using T [THEN conjunct1] plainT by (simp add: t map_get_def)
  have r2: "replaceVars [(''disk_on_ve'', VStr ''/dev/sda'')] [(''disk_on_ve'', VStr ''/dev/sdc'')] []
        (''-${mp} '' @ ''{{'' @ '' disk_on_ve '' @ ''}}'' @ '',backup=0'')
       = ''-${mp} /dev/sda,backup=0''"
    using T [THEN conjunct2, THEN conjunct1] plainT by (simp add: t map_get_def)
  have r3: "replaceVars [] [] []
        (''-${mp} '' @ ''{{'' @ '' disk_on_ve '' @ ''}}'' @ '',backup=0'')
       = ''-${mp} NOT_DEFINED,backup=0''"
    using U [THEN conjunct2, THEN conjunct1] plainU by (simp add: t map_get_def)
  have r4: "hostPayload [(''disk_on_ve'', VStr ''/dev/sdb'')] ?s
        (''-${mp} '' @ ''{{'' @ '' disk_on_ve '' @ ''}}'' @ '',backup=0'')
       = ''-${mp} /dev/sdb,backup=0''"
    using T [THEN conjunct2, THEN conjunct2, THEN conjunct2, THEN conjunct1, rule_format, OF v]
      plainT
    by (simp add: t map_get_def lookupVar_def)
  from a b v c r1 r2 r3 r4 show ?thesis by blast
qed

section \<open>Runs that stop or end without the expected report\<close>

text \<open>
  Claim C5, at a single-object properties step whose value resolves to \<open>NOT_DEFINED\<close>:
  the property is not stored, but the run emits no event at all for the step (its state
  is the initial one). The same entry inside an array is followed by one success message.
\<close>

theorem single_property_not_defined_no_event:
  "run (sampleEnv []) [propertiesOnly (PropObject modeProperty)] None (construct [] [])
     = (Inr None, construct [] [])
   \<and> events (snd (run (sampleEnv []) [propertiesOnly (PropList [modeProperty])] None
        (construct [] [])))
     = [Message (propertiesMessage (propertiesOnly (PropList [modeProperty]))
          (PropList [modeProperty]) 0)]"
  by (simp add: run_def startIdx_def step_def propertiesStep_def allSuccessful_def)

text \<open>
  Claim C2, at a single \<open>lxc\<close> step without a container id: the run emits the fatal
  message and returns no checkpoint, where a step that fails in a session (exit code 1)
  returns the checkpoint with \<open>lastSuccessfull = -1\<close>.
\<close>

theorem lxc_without_vm_id_no_checkpoint:
  "run (sampleEnv []) [shellStep ''lxc'' ''true''] None (construct [] [])
     = (Inr None,
        emit (stepMessage (shellStep ''lxc'' ''true'')
                ''vm_id is required for LXC execution but was not found in inputs or outputs.''
                RNull (- 1) 0)
          (construct [] []))
   \<and> fst (run (sampleEnv [printed [] 1]) [shellStep ''ve'' ''true''] None (construct [] []))
     = Inr (Some \<lparr>vm_id = NoVmId, lastSuccessfull = - 1, ri_inputs = [], ri_outputs = [],
                   ri_defaults = []\<rparr>)"
  by (simp add: run_eval)

text \<open>
  Claim C4, at a properties step followed by an \<open>lxc\<close> step without a container id: the
  first step succeeds and stores its output, the second emits the fatal message without a
  session, and the run returns no checkpoint.
\<close>

theorem lxc_abort_after_properties_no_checkpoint:
  "run (sampleEnv []) [propertiesOnly (PropObject flagProperty), shellStep ''lxc'' ''true'']
       None (construct [] [])
     = (Inr None,
        emit (stepMessage (shellStep ''lxc'' ''true'')
                ''vm_id is required for LXC execution but was not found in inputs or outputs.''
                RNull (- 1) 1)
          (emit (propertiesMessage (propertiesOnly (PropObject flagProperty))
                   (PropObject flagProperty) 0)
             ((construct [] [])\<lparr>outputs := [(''a'', VNum 1)]\<rparr>)))"
  by (simp add: run_eval)

text \<open>
  Claim C8, at a list of a succeeding \<open>ve\<close> step and a succeeding properties step: both
  steps report exit code 0, the checkpoint returned is that of step 0, and neither the
  \<open>Completed\<close> message nor the \<open>finished\<close> event follows. With the two steps in the other
  order both follow.
\<close>

theorem properties_last_no_completed:
  "fst (run (sampleEnv [printed [] 0])
          [shellStep ''ve'' ''true'', propertiesOnly (PropObject flagProperty)] None
          (construct [] []))
     = Inr (Some \<lparr>vm_id = NoVmId, lastSuccessfull = 0, ri_inputs = [], ri_outputs = [],
                   ri_defaults = []\<rparr>)
   \<and> map (\<lambda>e. case e of Message m \<Rightarrow> (m_command m, m_exitCode m) | Finished c \<Rightarrow> (None, 0))
        (events (snd (run (sampleEnv [printed [] 0])
          [shellStep ''ve'' ''true'', propertiesOnly (PropObject flagProperty)] None
          (construct [] []))))
     = [(Some ''step'', 0), (Some ''props'', 0)]
   \<and> map (\<lambda>e. case e of Message m \<Rightarrow> (m_command m, m_exitCode m) | Finished c \<Rightarrow> (None, 0))
        (events (snd (run (sampleEnv [printed [] 0])
          [propertiesOnly (PropObject flagProperty), shellStep ''ve'' ''true''] None
          (construct [] []))))
     = [(Some ''props'', 0), (Some ''step'', 0), (Some ''Completed'', 0), (None, 0)]"
  by (simp add: run_eval blankMessage_def stepMessage_def propertiesMessage_def
        completedMessage_def)

section \<open>Host discovery\<close>

text \<open>
  Claim C6, at a single step with \<open>execute_on\<close> \<open>host:db\<close> in a module loaded by Node: the
  first statement of \<open>executeOnHost\<close> calls \<open>require\<close>, which is not bound in an ES module,
  so the method throws before the probe. The run emits the fatal message with the text of
  the \<open>ReferenceError\<close> and stops; no session is made, neither for the probe nor for the
  payload, although two sessions that succeed are on offer.
\<close>

theorem host_step_stops_before_probe:
  "run (sampleEnv [printed [] 0, printed [] 0]) [shellStep ''host:db'' ''true''] None
       (construct [] [])
     = (Inr None,
        emit ((stepMessage (shellStep ''host:db'' ''true'') ''require is not defined''
                 RNull (- 1) 0)\<lparr>m_host := Some ''db''\<rparr>)
          (construct [] []))
   \<and> spawns (snd (run (sampleEnv [printed [] 0, printed [] 0]) [shellStep ''host:db'' ''true'']
                     None (construct [] []))) = 0"
  by (simp add: run_eval executeOnHost_def startsWith_def hostnameOf_def emit_def)

section \<open>Outputs of a step that fails\<close>

text \<open>
  Claim C10 as stated fails. A first step prints a name/value array and succeeds, a second
  prints the record \<open>a = 1\<close> and exits with 1: the record is merged into the outputs, but
  the failure checkpoint serialises the raw array of the first step, without \<open>a\<close>.
\<close>

theorem stale_raw_outputs_hide_failed_step:
  \<open>outputs (snd (run (sampleEnv [printed ''[{"name":"b","value":"2"}]'' 0,
                                  printed ''{"id":"a","value":"1"}'' 1])
                   [shellStep ''ve'' ''list'', shellStep ''ve'' ''set''] None (construct [] [])))
     = [(''b'', VStr ''2''), (''a'', VStr ''1'')]
   \<and> fst (run (sampleEnv [printed ''[{"name":"b","value":"2"}]'' 0,
                          printed ''{"id":"a","value":"1"}'' 1])
           [shellStep ''ve'' ''list'', shellStep ''ve'' ''set''] None (construct [] []))
     = Inr (Some \<lparr>vm_id = NoVmId, lastSuccessfull = 0, ri_inputs = [],
                   ri_outputs = [(''b'', VStr ''2'')], ri_defaults = []\<rparr>)\<close>
  by (simp add: run_def startIdx_def step_def allSuccessful_def dispatch_def runOnVeHost_def
        spawnLoop_unfold3 finishRun_def Let_def caught_def succeeded_def fallback_def
        checkpoint_def map_get_def markerOf_def replaceVars_def replaceVarsWithContext_def)

subsection \<open>The merge of the records of a step\<close>

lemma map_get_map_set:
  "map_get (map_set k v m) k' = (if k' = k then Some v else map_get m k')"
  by (induction m) (auto simp: map_get_def)

lemma processed_specValue:
  "(case v of
      VStr t \<Rightarrow>
        (if startsWith t ''local:'' \<and> sshCommand E \<noteq> ''ssh'' then
           (case localFileBase64 E (drop 6 t) of Inr b \<Rightarrow> True | Inl e \<Rightarrow> False)
         else True)
    | _ \<Rightarrow> True) \<Longrightarrow>
   processLocalFileValue E v = Inr (specValue E v)"
  by (auto simp: processLocalFileValue_def specValue_def split: val.splits sum.splits if_splits)

lemma find_snoc:
  "find P (xs @ [x]) = (case find P xs of Some y \<Rightarrow> Some y | None \<Rightarrow> if P x then Some x else None)"
  by (induction xs) simp_all

lemma storeOutput_merge:
  assumes "specReadable E (OSingle r)"
  shows "\<exists>s'. storeOutput E r s = (Inr (), s')
           \<and> map_get (outputs s') k = specOutputs E (OSingle r) (outputs s) k
           \<and> map_get (defaults s') k = specDefaults (OSingle r) (defaults s) k
           \<and> outputsRawResult s' = outputsRawResult s"
proof (cases "o_value r")
  case None
  then show ?thesis
    by (auto simp: storeOutput_def specOutputs_def specDefaults_def specRecords_def
          map_get_map_set split: option.splits)
next
  case (Some v)
  with assms have "processLocalFileValue E v = Inr (specValue E v)"
    by (intro processed_specValue) (simp add: specReadable_def specRecords_def)
  with Some show ?thesis
    by (auto simp: storeOutput_def specOutputs_def specDefaults_def specRecords_def
          map_get_map_set split: option.splits)
qed

lemma specReadable_Cons:
  "specReadable E (OArray (r # rs)) \<longleftrightarrow> specReadable E (OSingle r) \<and> specReadable E (OArray rs)"
  by (simp add: specReadable_def specRecords_def)

lemma specOutputs_cong:
  "map_get outs k = map_get outs' k \<Longrightarrow> specOutputs E j outs k = specOutputs E j outs' k"
  by (simp add: specOutputs_def split: option.splits)

lemma specDefaults_cong:
  "map_get defs k = map_get defs' k \<Longrightarrow> specDefaults j defs k = specDefaults j defs' k"
  by (simp add: specDefaults_def split: option.splits)

lemma specOutputs_step:
  "map_get outs' k = specOutputs E (OSingle r) outs k \<Longrightarrow>
     specOutputs E (OArray rs) outs' k = specOutputs E (OArray (r # rs)) outs k"
  by (auto simp: specOutputs_def specRecords_def find_snoc split: option.splits)

lemma specDefaults_step:
  "map_get defs' k = specDefaults (OSingle r) defs k \<Longrightarrow>
     specDefaults (OArray rs) defs' k = specDefaults (OArray (r # rs)) defs k"
  by (auto simp: specDefaults_def specRecords_def find_snoc split: option.splits)

lemma outputLoop_merge:
  assumes "specReadable E (OArray rs)"
  shows "\<exists>s'. outputLoop E rs s = (Inr (), s')
           \<and> map_get (outputs s') k = specOutputs E (OArray rs) (outputs s) k
           \<and> map_get (defaults s') k = specDefaults (OArray rs) (defaults s) k
           \<and> outputsRawResult s' = outputsRawResult s"
  using assms
proof (induction rs arbitrary: s)
  case Nil
  show ?case by (simp add: specOutputs_def specDefaults_def specRecords_def)
next
  case (Cons r rs)
  from Cons.prems have a: "specReadable E (OSingle r)" and b: "specReadable E (OArray rs)"
    by (simp_all add: specReadable_Cons)
  from storeOutput_merge [OF a, of s k] obtain s1 where
    st: "storeOutput E r s = (Inr (), s1)"
    and o1: "map_get (outputs s1) k = specOutputs E (OSingle r) (outputs s) k"
    and d1: "map_get (defaults s1) k = specDefaults (OSingle r) (defaults s) k"
    and r1: "outputsRawResult s1 = outputsRawResult s"
    by blast
  from Cons.IH [OF b, of s1] obtain s' where
    lp: "outputLoop E rs s1 = (Inr (), s')"
    and o2: "map_get (outputs s') k = specOutputs E (OArray rs) (outputs s1) k"
    and d2: "map_get (defaults s') k = specDefaults (OArray rs) (defaults s1) k"
    and r2: "outputsRawResult s' = outputsRawResult s1"
    by blast
  show ?case
    using st lp o2 d2 r1 r2 specOutputs_step [OF o1] specDefaults_step [OF d1] by simp
qed


lemma specReadable_nv_Cons:
  "specReadable E (ONameValues ((n, v) # nvs)) \<longleftrightarrow>
     specReadable E (OSingle \<lparr>o_id = n, o_value = Some v, o_default = None\<rparr>)
     \<and> specReadable E (ONameValues nvs)"
  by (simp add: specReadable_def specRecords_def)

lemma specOutputs_nv_step:
  "map_get outs' k = (if k = n then Some (specValue E v) else map_get outs k) \<Longrightarrow>
     specOutputs E (ONameValues nvs) outs' k = specOutputs E (ONameValues ((n, v) # nvs)) outs k"
  by (auto simp: specOutputs_def specRecords_def find_snoc split: option.splits)

lemma specDefaults_nv [simp]: "specDefaults (ONameValues nvs) defs k = map_get defs k"
proof -
  have "find (\<lambda>r. o_id r = k \<and> o_default r \<noteq> None)
          (rev (map (\<lambda>(n, v). \<lparr>o_id = n, o_value = Some v, o_default = None\<rparr>) nvs)) = None"
    by (auto simp: find_None_iff)
  then show ?thesis by (simp add: specDefaults_def specRecords_def)
qed

lemma nameValueLoop_merge:
  assumes "specReadable E (ONameValues nvs)"
  shows "\<exists>s'. nameValueLoop E nvs raw s
                 = (Inr (raw @ map (\<lambda>(n, v). (n, specValue E v)) nvs), s')
           \<and> map_get (outputs s') k = specOutputs E (ONameValues nvs) (outputs s) k
           \<and> defaults s' = defaults s
           \<and> outputsRawResult s' = outputsRawResult s"
  using assms
proof (induction nvs arbitrary: raw s)
  case Nil
  show ?case by (simp add: specOutputs_def specRecords_def)
next
  case (Cons nv nvs)
  obtain n v where nv: "nv = (n, v)" by (cases nv)
  from Cons.prems nv have a: "processLocalFileValue E v = Inr (specValue E v)"
    and b: "specReadable E (ONameValues nvs)"
    by (auto simp: specReadable_nv_Cons specReadable_def specRecords_def
          intro: processed_specValue)
  let ?s1 = "s\<lparr>outputs := map_set n (specValue E v) (outputs s)\<rparr>"
  from Cons.IH [OF b, of "raw @ [(n, specValue E v)]" ?s1] obtain s' where
    lp: "nameValueLoop E nvs (raw @ [(n, specValue E v)]) ?s1
           = (Inr ((raw @ [(n, specValue E v)]) @ map (\<lambda>(n, v). (n, specValue E v)) nvs), s')"
    and o2: "map_get (outputs s') k = specOutputs E (ONameValues nvs) (outputs ?s1) k"
    and d2: "defaults s' = defaults ?s1"
    and r2: "outputsRawResult s' = outputsRawResult ?s1"
    by blast
  have "map_get (outputs ?s1) k = (if k = n then Some (specValue E v) else map_get (outputs s) k)"
    by (simp add: map_get_map_set)
  from specOutputs_nv_step [OF this] o2 lp d2 r2 nv a show ?case by simp
qed

lemma applyOutputs_merge:
  assumes "specReadable E j"
  shows "\<exists>s'. applyOutputs E j s = (Inr (), s')
           \<and> map_get (outputs s') k = specOutputs E j (outputs s) k
           \<and> map_get (defaults s') k = specDefaults j (defaults s) k
           \<and> outputsRawResult s'
               = (case specRaw E j of Some raw \<Rightarrow> Some raw | None \<Rightarrow> outputsRawResult s)"
proof (cases j)
  case (OSingle r)
  with storeOutput_merge [of E r s k] assms show ?thesis
    by (auto simp: applyOutputs_def specRaw_def)
next
  case (OArray rs)
  with outputLoop_merge [of E rs s k] assms show ?thesis
    by (auto simp: applyOutputs_def specRaw_def)
next
  case (ONameValues nvs)
  show ?thesis
  proof (cases nvs)
    case Nil
    with ONameValues show ?thesis
      by (simp add: applyOutputs_def specRaw_def specOutputs_def specRecords_def)
  next
    case (Cons nv rest)
    with nameValueLoop_merge [of E nvs "[]" s k] assms ONameValues show ?thesis
      by (auto simp: applyOutputs_def specRaw_def)
  qed
qed

lemma cleanStdout_nonempty: "cleanStdout out marker \<noteq> [] \<Longrightarrow> trim out \<noteq> []"
  by (auto simp: cleanStdout_def Let_def split: option.splits if_splits)

lemma parse_merge:
  assumes "cleanStdout out marker \<noteq> []"
    and "jsonOutputs E (cleanStdout out marker) = Inr j"
    and "specReadable E j"
  shows "\<exists>s'. parseAndUpdateOutputs E out marker s = (Inr (), s')
           \<and> map_get (outputs s') k = specOutputs E j (outputs s) k
           \<and> map_get (defaults s') k = specDefaults j (defaults s) k
           \<and> outputsRawResult s'
               = (case specRaw E j of Some raw \<Rightarrow> Some raw | None \<Rightarrow> outputsRawResult s)
           \<and> inputs s' = inputs s \<and> outputsRaw s' = outputsRaw s \<and> events s' = events s"
proof -
  from applyOutputs_merge [OF assms(3), of s k] obtain s' where
    ap: "applyOutputs E j s = (Inr (), s')"
    and rest: "map_get (outputs s') k = specOutputs E j (outputs s) k"
      "map_get (defaults s') k = specDefaults j (defaults s) k"
      "outputsRawResult s'
         = (case specRaw E j of Some raw \<Rightarrow> Some raw | None \<Rightarrow> outputsRawResult s)"
    by blast
  have pa: "parseAndUpdateOutputs E out marker s = (Inr (), s')"
    using assms(1,2) ap cleanStdout_nonempty [OF assms(1)]
    by (simp add: parseAndUpdateOutputs_def)
  with parseAndUpdateOutputs_frame [of E out marker s] rest show ?thesis by simp
qed

lemma runLoop_append:
  "allContinue E i pre rs \<Longrightarrow>
     runLoop E i (pre @ rest) rs = runLoop E (i + int (length pre)) rest (runLoop E i pre rs)"
proof (induction pre arbitrary: i rs)
  case Nil
  show ?case by simp
next
  case (Cons x pre)
  obtain oc rs1 where st: "step E i x rs = (oc, rs1)" by (cases "step E i x rs")
  with Cons.prems have oc: "oc = Continue" and ac: "allContinue E (i + 1) pre rs1"
    by (cases oc; simp)+
  have "i + 1 + int (length pre) = i + int (length (x # pre))" by simp
  with Cons.IH [OF ac] st oc show ?case by (simp del: of_nat_Suc list.size)
qed

lemma failed_session:
  assumes "sshArgsOf E remote = Inr args"
    and "spawnLoop E (requestOf E args timeoutMs (markerOf E s) payload) cmd payload 0 None s
           = (Some p, s1)"
    and "exitCode p \<noteq> 0"
    and "cleanStdout (stdout p) (markerOf E s) \<noteq> []"
    and "jsonOutputs E (cleanStdout (stdout p) (markerOf E s)) = Inr j"
    and "specReadable E j"
  shows "\<exists>s2. runOnVeHost E payload cmd timeoutMs remote s
                 = (Inl (failText (c_name cmd) (exitCode p) (stderr p)), s2)
           \<and> map_get (outputs s2) k = specOutputs E j (outputs s) k
           \<and> map_get (defaults s2) k = specDefaults j (defaults s) k
           \<and> outputsRaw s2
               = (case specRaw E j of
                    Some raw \<Rightarrow> Some raw
                  | None \<Rightarrow> (case outputsRawResult s of
                               Some raw \<Rightarrow> Some raw
                             | None \<Rightarrow> outputsRaw s))
           \<and> inputs s2 = inputs s \<and> events s2 = events s1"
proof -
  note sc = spawnLoop_scopes [OF assms(2)]
  from parse_merge [OF assms(4,5,6), of s1 k] obtain sP where
    pa: "parseAndUpdateOutputs E (stdout p) (markerOf E s) s1 = (Inr (), sP)"
    and f: "map_get (outputs sP) k = specOutputs E j (outputs s1) k"
      "map_get (defaults sP) k = specDefaults j (defaults s1) k"
      "outputsRawResult sP
         = (case specRaw E j of Some raw \<Rightarrow> Some raw | None \<Rightarrow> outputsRawResult s1)"
      "inputs sP = inputs s1" "outputsRaw sP = outputsRaw s1" "events sP = events s1"
    by blast
  have "runOnVeHost E payload cmd timeoutMs remote s
          = (Inl (failText (c_name cmd) (exitCode p) (stderr p)),
             (case outputsRawResult sP of None \<Rightarrow> sP | Some r \<Rightarrow> sP\<lparr>outputsRaw := Some r\<rparr>))"
    using assms(1,2,3) pa cleanStdout_nonempty [OF assms(4)]
    by (simp add: runOnVeHost_def finishRun_def Let_def)
  with f sc show ?thesis by (auto split: option.splits)
qed


text \<open>
  Claim C10, amended. A run, fresh or resumed, whose steps before the command \<open>cmd\<close> all
  let the loop go on, reaches \<open>cmd\<close> in the state \<open>s\<close>. Let \<open>cmd\<close> be a script or command
  step for \<open>ve\<close>, or for \<open>lxc\<close> with a container id, whose last session exits with a code
  other than 0 and prints a text that, after the marker is stripped, is not empty and
  decodes to the records \<open>j\<close>, every local file of which can be read. Then \<open>run\<close> returns
  the checkpoint of the index before \<open>cmd\<close>, and its final state holds the records merged
  as section 4.2 of the spec asks: each output and each default is that of the last record
  for its id, and as it was in \<open>s\<close> where no record names it. The defaults of the
  checkpoint are those defaults. Its outputs are those outputs only when no name/value
  array has been received: otherwise they are the array of \<open>j\<close>, or else the array
  received last before. The last event is the failure message of the step.
\<close>

theorem failed_step_keeps_parsed_records:
  assumes "startIdx restartInfo = int (length past)"
    and "allContinue E (int (length past)) pre
           (0, None, case restartInfo of None \<Rightarrow> s0 | Some ri \<Rightarrow> restore ri s0)"
    and "runLoop E (int (length past)) pre
           (0, None, case restartInfo of None \<Rightarrow> s0 | Some ri \<Rightarrow> restore ri s0)
         = (msgIndex, rc, s)"
    and "\<not> isSkipped cmd" and "c_properties cmd = None"
    and "(c_script cmd = Some path \<and> readFileSync E path = Inr rawStr)
         \<or> (c_script cmd = None \<and> c_command cmd = Some rawStr)"
    and "(c_execute_on cmd = Some ''ve'' \<and> remote = None)
         \<or> (c_execute_on cmd = Some ''lxc'' \<and> \<not> falsy (findVmId s) \<and> findVmId s = Some vmid
             \<and> remote = (if sshCommand E \<noteq> ''ssh'' then None
                          else Some [''lxc-attach'', ''-n'', showVal vmid]))"
    and "sshArgsOf E remote = Inr args"
    and "spawnLoop E
           (requestOf E args None (markerOf E s)
              (replaceVars (outputs s) (inputs s) (defaults s) rawStr))
           cmd (replaceVars (outputs s) (inputs s) (defaults s) rawStr) 0 None s = (Some p, s1)"
    and "exitCode p \<noteq> 0"
    and "cleanStdout (stdout p) (markerOf E s) \<noteq> []"
    and "jsonOutputs E (cleanStdout (stdout p) (markerOf E s)) = Inr j"
    and "specReadable E j"
  shows "(\<exists>cp. fst (run E (past @ pre @ cmd # post) restartInfo s0) = Inr (Some cp)
            \<and> lastSuccessfull cp = int (length past) + int (length pre) - 1
            \<and> ri_inputs cp = inputs s
            \<and> ri_defaults cp = defaults (snd (run E (past @ pre @ cmd # post) restartInfo s0))
            \<and> ri_outputs cp =
                (case specRaw E j of
                   Some raw \<Rightarrow> raw
                 | None \<Rightarrow>
                     (case outputsRawResult s of
                        Some raw \<Rightarrow> raw
                      | None \<Rightarrow>
                          (case outputsRaw s of
                             Some raw \<Rightarrow> raw
                           | None \<Rightarrow>
                               outputs (snd (run E (past @ pre @ cmd # post) restartInfo s0))))))
         \<and> map_get (outputs (snd (run E (past @ pre @ cmd # post) restartInfo s0))) k
             = specOutputs E j (outputs s) k
         \<and> map_get (defaults (snd (run E (past @ pre @ cmd # post) restartInfo s0))) k
             = specDefaults j (defaults s) k
         \<and> events (snd (run E (past @ pre @ cmd # post) restartInfo s0))
             = events s1 @
               [Message (stepMessage cmd (failText (c_name cmd) (exitCode p) (stderr p))
                           RNull (- 1) msgIndex)]"
proof -
  let ?i = "int (length past) + int (length pre)"
  let ?payload = "replaceVars (outputs s) (inputs s) (defaults s) rawStr"
  let ?m = "stepMessage cmd (failText (c_name cmd) (exitCode p) (stderr p)) RNull (- 1) msgIndex"
  let ?s0 = "case restartInfo of None \<Rightarrow> s0 | Some ri \<Rightarrow> restore ri s0"
  from failed_session [OF assms(8-13), of k] obtain s2 where
    ro: "runOnVeHost E ?payload cmd None remote s
           = (Inl (failText (c_name cmd) (exitCode p) (stderr p)), s2)"
    and o: "map_get (outputs s2) k = specOutputs E j (outputs s) k"
    and d: "map_get (defaults s2) k = specDefaults j (defaults s) k"
    and r: "outputsRaw s2
              = (case specRaw E j of
                   Some raw \<Rightarrow> Some raw
                 | None \<Rightarrow> (case outputsRawResult s of
                              Some raw \<Rightarrow> Some raw
                            | None \<Rightarrow> outputsRaw s))"
    and i: "inputs s2 = inputs s" and e: "events s2 = events s1"
    by blast
  have di: "dispatch E ?i cmd rawStr (msgIndex, rc, s)
              = (Break, Suc msgIndex, Some (checkpoint (?i - 1) (emit ?m s2)), emit ?m s2)"
    using assms(7) ro by (auto simp: dispatch_def runOnLxc_def caught_def)
  have st: "step E ?i cmd (msgIndex, rc, s) = dispatch E ?i cmd rawStr (msgIndex, rc, s)"
    using assms(4,5,6) by (auto simp: step_def)
  have lp: "runLoop E (int (length past)) (pre @ cmd # post) (0, None, ?s0)
              = (Suc msgIndex, Some (checkpoint (?i - 1) (emit ?m s2)), emit ?m s2)"
    using runLoop_append [OF assms(2), of "cmd # post"] assms(3) st di by simp
  have na: "\<not> allSuccessful (past @ pre @ cmd # post) (Some (checkpoint (?i - 1) (emit ?m s2)))"
    by (simp add: allSuccessful_def checkpoint_def)
  have rn: "run E (past @ pre @ cmd # post) restartInfo s0
              = (Inr (Some (checkpoint (?i - 1) (emit ?m s2))), emit ?m s2)"
    using lp na assms(1) by (simp add: run_def)
  show ?thesis
    unfolding rn using o d r i e
    by (auto simp: checkpoint_def split: option.splits)
qed


text \<open>
  A properties step that sets \<open>a\<close> to 1, then a \<open>ve\<close> step that prints a record with the value
  2 and the default 0 for \<open>a\<close> and exits with 1.
\<close>

theorem failed_step_keeps_parsed_records_witness:
  "startIdx None = int (length ([] :: icommand list))
   \<and> allContinue (sampleEnv [printed defaultRecord 1]) (int (length ([] :: icommand list)))
        [propertiesOnly (PropObject flagProperty)] (0, None, construct [] [])
   \<and> runLoop (sampleEnv [printed defaultRecord 1]) (int (length ([] :: icommand list)))
        [propertiesOnly (PropObject flagProperty)] (0, None, construct [] [])
       = (1, None, afterFlag)
   \<and> \<not> isSkipped (shellStep ''ve'' ''set'') \<and> c_properties (shellStep ''ve'' ''set'') = None
   \<and> c_script (shellStep ''ve'' ''set'') = None \<and> c_command (shellStep ''ve'' ''set'') = Some ''set''
   \<and> c_execute_on (shellStep ''ve'' ''set'') = Some ''ve''
   \<and> sshArgsOf (sampleEnv [printed defaultRecord 1]) None = Inr []
   \<and> spawnLoop (sampleEnv [printed defaultRecord 1])
        (requestOf (sampleEnv [printed defaultRecord 1]) [] None
           (markerOf (sampleEnv [printed defaultRecord 1]) afterFlag)
           (replaceVars (outputs afterFlag) (inputs afterFlag) (defaults afterFlag) ''set''))
        (shellStep ''ve'' ''set'')
        (replaceVars (outputs afterFlag) (inputs afterFlag) (defaults afterFlag) ''set'')
        0 None afterFlag
       = (Some (printed defaultRecord 1), afterFlag\<lparr>spawns := 1\<rparr>)
   \<and> exitCode (printed defaultRecord 1) \<noteq> 0
   \<and> cleanStdout (stdout (printed defaultRecord 1))
        (markerOf (sampleEnv [printed defaultRecord 1]) afterFlag) \<noteq> []
   \<and> jsonOutputs (sampleEnv [printed defaultRecord 1])
        (cleanStdout (stdout (printed defaultRecord 1))
           (markerOf (sampleEnv [printed defaultRecord 1]) afterFlag))
       = Inr (OArray [\<lparr>o_id = ''a'', o_value = Some (VStr ''2''), o_default = Some (VStr ''0'')\<rparr>])
   \<and> specReadable (sampleEnv [printed defaultRecord 1])
        (OArray [\<lparr>o_id = ''a'', o_value = Some (VStr ''2''), o_default = Some (VStr ''0'')\<rparr>])
   \<and> (\<exists>cp. fst (run (sampleEnv [printed defaultRecord 1])
                   [propertiesOnly (PropObject flagProperty), shellStep ''ve'' ''set''] None
                   (construct [] [])) = Inr (Some cp)
          \<and> lastSuccessfull cp = 0
          \<and> ri_defaults cp
              = defaults (snd (run (sampleEnv [printed defaultRecord 1])
                   [propertiesOnly (PropObject flagProperty), shellStep ''ve'' ''set''] None
                   (construct [] [])))
          \<and> ri_outputs cp
              = outputs (snd (run (sampleEnv [printed defaultRecord 1])
                   [propertiesOnly (PropObject flagProperty), shellStep ''ve'' ''set''] None
                   (construct [] []))))
   \<and> map_get (outputs (snd (run (sampleEnv [printed defaultRecord 1])
                   [propertiesOnly (PropObject flagProperty), shellStep ''ve'' ''set''] None
                   (construct [] [])))) ''a'' = Some (VStr ''2'')
   \<and> map_get (defaults (snd (run (sampleEnv [printed defaultRecord 1])
                   [propertiesOnly (PropObject flagProperty), shellStep ''ve'' ''set''] None
                   (construct [] [])))) ''a'' = Some (VStr ''0'')"
proof -
  let ?E = "sampleEnv [printed defaultRecord 1]"
  let ?props = "propertiesOnly (PropObject flagProperty)"
  let ?cmd = "shellStep ''ve'' ''set''"
  let ?j = "OArray [\<lparr>o_id = ''a'', o_value = Some (VStr ''2''), o_default = Some (VStr ''0'')\<rparr>]"
  let ?payload = "replaceVars (outputs afterFlag) (inputs afterFlag) (defaults afterFlag) ''set''"
  have h1: "startIdx None = int (length ([] :: icommand list))" by (simp add: startIdx_def)
  have st: "step ?E 0 ?props (0, None, construct [] []) = (Continue, 1, None, afterFlag)"
    by (simp add: step_def propertiesStep_def afterFlag_def)
  have h2: "allContinue ?E (int (length ([] :: icommand list))) [?props]
              (0, None, case None of None \<Rightarrow> construct [] [] | Some ri \<Rightarrow> restore ri (construct [] []))"
    using st by simp
  have h3: "runLoop ?E (int (length ([] :: icommand list))) [?props]
              (0, None, case None of None \<Rightarrow> construct [] [] | Some ri \<Rightarrow> restore ri (construct [] []))
            = (1, None, afterFlag)"
    using st by simp
  have h4: "\<not> isSkipped ?cmd" and h5: "c_properties ?cmd = None" by simp_all
  have h6: "(c_script ?cmd = Some [] \<and> readFileSync ?E [] = Inr ''set'')
            \<or> (c_script ?cmd = None \<and> c_command ?cmd = Some ''set'')" by simp
  have h7: "(c_execute_on ?cmd = Some ''ve'' \<and> (None :: string list option) = None)
            \<or> (c_execute_on ?cmd = Some ''lxc'' \<and> \<not> falsy (findVmId afterFlag)
                \<and> findVmId afterFlag = Some (VNum 0)
                \<and> None = (if sshCommand ?E \<noteq> ''ssh'' then None
                           else Some [''lxc-attach'', ''-n'', showVal (VNum 0)]))" by simp
  have h8: "sshArgsOf ?E None = Inr []" by simp
  have h9: "spawnLoop ?E (requestOf ?E [] None (markerOf ?E afterFlag) ?payload) ?cmd ?payload
              0 None afterFlag = (Some (printed defaultRecord 1), afterFlag\<lparr>spawns := 1\<rparr>)"
    by (simp add: spawnLoop_unfold3 Let_def)
  have h10: "exitCode (printed defaultRecord 1) \<noteq> 0" by simp
  have h11: "cleanStdout (stdout (printed defaultRecord 1)) (markerOf ?E afterFlag) \<noteq> []"
    by (simp add: markerOf_def)
  have h12: "jsonOutputs ?E (cleanStdout (stdout (printed defaultRecord 1)) (markerOf ?E afterFlag))
               = Inr ?j"
    by (simp add: markerOf_def)
  have h13: "specReadable ?E ?j"
    by (simp add: specReadable_def specRecords_def startsWith_def)
  note T = failed_step_keeps_parsed_records [OF h1 h2 h3 h4 h5 h6 h7 h8 h9 h10 h11 h12 h13,
      of "[]" "''a''"]
  have c: "(\<exists>cp. fst (run ?E [?props, ?cmd] None (construct [] [])) = Inr (Some cp)
              \<and> lastSuccessfull cp = 0
              \<and> ri_defaults cp = defaults (snd (run ?E [?props, ?cmd] None (construct [] [])))
              \<and> ri_outputs cp = outputs (snd (run ?E [?props, ?cmd] None (construct [] []))))
           \<and> map_get (outputs (snd (run ?E [?props, ?cmd] None (construct [] [])))) ''a''
               = Some (VStr ''2'')
           \<and> map_get (defaults (snd (run ?E [?props, ?cmd] None (construct [] [])))) ''a''
               = Some (VStr ''0'')"
    using T
    by (auto simp: specRaw_def specOutputs_def specDefaults_def specRecords_def specValue_def
          startsWith_def)
  from h1 h2 h3 h4 h5 h8 h9 h10 h11 h12 h13 c show ?thesis by simp
qed

section \<open>Resuming from a checkpoint\<close>

subsection \<open>Unique keys\<close>

lemma keys_map_set:
  "map fst (map_set k v m) = (if k \<in> set (map fst m) then map fst m else map fst m @ [k])"
  by (induction m) (force split: if_splits)+

lemma distinct_map_set: "distinct (map fst m) \<Longrightarrow> distinct (map fst (map_set k v m))"
  by (simp add: keys_map_set)

lemma distinct_set_all:
  "distinct (map fst m) \<Longrightarrow> distinct (map fst (set_all kvs m))"
  by (induction kvs m rule: set_all.induct) (simp_all add: distinct_map_set)

lemma map_set_fresh: "k \<notin> set (map fst m) \<Longrightarrow> map_set k v m = m @ [(k, v)]"
  by (induction m) auto

lemma set_all_distinct:
  "distinct (map fst (m @ kvs)) \<Longrightarrow> set_all kvs m = m @ kvs"
proof (induction kvs arbitrary: m)
  case Nil
  show ?case by simp
next
  case (Cons kv kvs)
  obtain k v where kv: "kv = (k, v)" by (cases kv)
  have fresh: "k \<notin> set (map fst m)" using Cons.prems kv by auto
  have "distinct (map fst ((m @ [(k, v)]) @ kvs))" using Cons.prems kv by simp
  then have "set_all kvs (m @ [(k, v)]) = (m @ [(k, v)]) @ kvs" by (rule Cons.IH)
  then show ?case using kv fresh by (simp add: map_set_fresh)
qed

lemma set_all_Nil: "distinct (map fst kvs) \<Longrightarrow> set_all kvs [] = kvs"
  using set_all_distinct [of "[]" kvs] by simp

subsection \<open>Reachable states are well formed\<close>

lemma wellFormed_log [simp]:
  "wellFormed (emit m s) = wellFormed s"
  "wellFormed (emitChunks tmpl input chs s) = wellFormed s"
  "wellFormed (s\<lparr>spawns := n\<rparr>) = wellFormed s"
  "wellFormed (s\<lparr>sleeps := sl\<rparr>) = wellFormed s"
  "wellFormed (s\<lparr>gindex := g\<rparr>) = wellFormed s"
  "wellFormed (s\<lparr>events := ev\<rparr>) = wellFormed s"
  by (simp_all add: wellFormed_def)

lemma wellFormed_same:
  "inputs t = inputs s \<Longrightarrow> outputs t = outputs s \<Longrightarrow> defaults t = defaults s \<Longrightarrow>
   outputsRaw t = outputsRaw s \<Longrightarrow> outputsRawResult t = outputsRawResult s \<Longrightarrow>
   wellFormed t = wellFormed s"
  by (simp add: wellFormed_def)

lemma nameValueLoop_keys:
  "keysOk s \<Longrightarrow> keysOk (snd (nameValueLoop E nvs raw s)) \<and>
     outputsRawResult (snd (nameValueLoop E nvs raw s)) = outputsRawResult s"
  by (induction E nvs raw s rule: nameValueLoop.induct)
     (auto simp: keysOk_def distinct_map_set split: sum.splits)

lemma storeOutput_keys:
  "keysOk s \<Longrightarrow> keysOk (snd (storeOutput E entry s)) \<and>
     outputsRawResult (snd (storeOutput E entry s)) = outputsRawResult s"
  by (auto simp: storeOutput_def keysOk_def distinct_map_set split: sum.splits option.splits)

lemma outputLoop_keys:
  "keysOk s \<Longrightarrow> keysOk (snd (outputLoop E entries s)) \<and>
     outputsRawResult (snd (outputLoop E entries s)) = outputsRawResult s"
proof (induction entries arbitrary: s)
  case Nil
  then show ?case by simp
next
  case (Cons entry entries)
  obtain r s1 where st: "storeOutput E entry s = (r, s1)"
    by (cases "storeOutput E entry s")
  have k: "keysOk s1 \<and> outputsRawResult s1 = outputsRawResult s"
    using storeOutput_keys [OF Cons.prems, of E entry] st by simp
  show ?case using Cons.IH [of s1] st k by (cases r) simp_all
qed

lemma applyOutputs_keys:
  assumes "keysOk s"
  shows "keysOk (snd (applyOutputs E j s)) \<and>
     (isl (fst (applyOutputs E j s)) \<longrightarrow>
        outputsRawResult (snd (applyOutputs E j s)) = outputsRawResult s)"
proof (cases j)
  case (OSingle obj)
  then show ?thesis using storeOutput_keys [OF assms, of E obj] by (simp add: applyOutputs_def)
next
  case (OArray entries)
  then show ?thesis using outputLoop_keys [OF assms, of E entries] by (simp add: applyOutputs_def)
next
  case (ONameValues nvs)
  show ?thesis
  proof (cases nvs)
    case Nil
    with ONameValues assms show ?thesis by (simp add: applyOutputs_def)
  next
    case (Cons nv rest)
    obtain r s1 where l: "nameValueLoop E (nv # rest) [] s = (r, s1)"
      by (cases "nameValueLoop E (nv # rest) [] s")
    have "keysOk s1 \<and> outputsRawResult s1 = outputsRawResult s"
      using nameValueLoop_keys [OF assms, of E "nv # rest" "[]"] l by simp
    with ONameValues Cons l show ?thesis
      by (cases r) (simp_all add: applyOutputs_def keysOk_def)
  qed
qed

lemma parseAndUpdateOutputs_keys:
  assumes "keysOk s"
  shows "keysOk (snd (parseAndUpdateOutputs E out marker s)) \<and>
     (isl (fst (parseAndUpdateOutputs E out marker s)) \<longrightarrow>
        outputsRawResult (snd (parseAndUpdateOutputs E out marker s)) = outputsRawResult s)"
  using assms applyOutputs_keys [OF assms, of E]
  by (auto simp: parseAndUpdateOutputs_def split: sum.splits)

lemma wellFormed_keysOk:
  "wellFormed s \<longleftrightarrow>
     distinct (map fst (inputs s)) \<and> keysOk s
     \<and> (outputsRaw s = None \<longrightarrow> outputsRawResult s = None)"
  by (auto simp: wellFormed_def keysOk_def)

lemma finishRun_wellFormed:
  assumes "wellFormed s"
  shows "wellFormed (snd (finishRun E input tmpl marker p s))"
proof -
  obtain r s1 where pa: "parseAndUpdateOutputs E (stdout p) marker s = (r, s1)"
    by (cases "parseAndUpdateOutputs E (stdout p) marker s")
  have k: "keysOk s" using assms by (simp add: wellFormed_keysOk)
  have f: "inputs s1 = inputs s" "outputsRaw s1 = outputsRaw s"
    using parseAndUpdateOutputs_frame [of E "stdout p" marker s] pa by simp_all
  have k1: "keysOk s1" "isl r \<longrightarrow> outputsRawResult s1 = outputsRawResult s"
    using parseAndUpdateOutputs_keys [OF k, of E "stdout p" marker] pa by simp_all
  show ?thesis
  proof (cases r)
    case (Inl e)
    then have "wellFormed s1" using assms f k1 by (simp add: wellFormed_keysOk)
    with Inl pa assms show ?thesis by (simp add: finishRun_def Let_def)
  next
    case (Inr u)
    have "wellFormed (case outputsRawResult s1 of None \<Rightarrow> s1
                      | Some raw \<Rightarrow> s1\<lparr>outputsRaw := Some raw\<rparr>)"
      using assms f k1(1) by (auto simp: wellFormed_keysOk keysOk_def split: option.splits)
    with Inr pa assms show ?thesis by (simp add: finishRun_def Let_def)
  qed
qed

lemma runOnVeHost_wellFormed:
  assumes "wellFormed s" and "runOnVeHost E input tmpl timeoutMs remote s = (res, s')"
  shows "wellFormed s'"
proof (cases "sshArgsOf E remote")
  case (Inl e)
  with assms show ?thesis by (simp add: runOnVeHost_def)
next
  case (Inr args)
  obtain r s1 where l: "spawnLoop E (requestOf E args timeoutMs (markerOf E s) input) tmpl
                          input 0 None s = (r, s1)"
    by (cases "spawnLoop E (requestOf E args timeoutMs (markerOf E s) input) tmpl input 0 None s")
  have w1: "wellFormed s1"
    using spawnLoop_scopes [OF l] assms(1) wellFormed_same [of s1 s] by simp
  show ?thesis
  proof (cases r)
    case None
    with Inr l assms(2) w1 show ?thesis by (simp add: runOnVeHost_def)
  next
    case (Some p)
    with Inr l assms(2) have "s' = snd (finishRun E input tmpl (markerOf E s) p s1)"
      by (simp add: runOnVeHost_def)
    then show ?thesis using finishRun_wellFormed [OF w1] by simp
  qed
qed

lemma runOnLxc_wellFormed:
  "wellFormed s \<Longrightarrow> runOnLxc E vmid payload tmpl timeoutMs s = (res, s') \<Longrightarrow> wellFormed s'"
  unfolding runOnLxc_def by (rule runOnVeHost_wellFormed)

lemma executeOnHost_unloaded:
  "requireModule E ''node:path'' = Inl e \<or>
   (requireModule E ''node:path'' = Inr u \<and> requireModule E ''node:url'' = Inl e) \<Longrightarrow>
   executeOnHost E hostname payload tmpl s = (Inl e, s)"
  by (auto simp: executeOnHost_def)

lemma executeOnHost_loaded:
  "requireModule E ''node:path'' = Inr u \<Longrightarrow> requireModule E ''node:url'' = Inr v \<Longrightarrow>
   executeOnHost E hostname payload tmpl s =
     (case runOnVeHost E [] (tmpl\<lparr>c_name := Some ''write-vmids''\<rparr>) (Some 10000)
             (Some [probeScriptPath E]) s of
        (Inl e, s1) \<Rightarrow> (Inl e, s1)
      | (Inr probeMsg, s1) \<Rightarrow>
          (case verifyHost E hostname (usedStrOf s1 probeMsg) of
             Inl e \<Rightarrow> (Inl e, s1)
           | Inr vmctx \<Rightarrow>
               (case runOnLxc E (reg_vmid vmctx) (hostPayload (reg_data vmctx) s1 payload)
                       tmpl None s1 of
                  (Inl e, s2) \<Rightarrow> (Inl e, s2)
                | (Inr m, s2) \<Rightarrow> (Inr (), s2))))"
  by (simp add: executeOnHost_def)

lemma executeOnHost_cases:
  obtains (unloaded) e u where
      "requireModule E ''node:path'' = Inl e \<or>
       (requireModule E ''node:path'' = Inr u \<and> requireModule E ''node:url'' = Inl e)"
  | (loaded) u v where "requireModule E ''node:path'' = Inr u" "requireModule E ''node:url'' = Inr v"
  by (cases "requireModule E ''node:path''"; cases "requireModule E ''node:url''") auto

lemma executeOnHost_wellFormed:
  assumes "wellFormed s" and "executeOnHost E hostname payload tmpl s = (res, s')"
  shows "wellFormed s'"
proof (cases E rule: executeOnHost_cases)
  case (unloaded e u)
  from executeOnHost_unloaded [OF this] assms show ?thesis by simp
next
  case (loaded u v)
  note def = executeOnHost_loaded [OF loaded]
  obtain r s1 where pr: "runOnVeHost E [] (tmpl\<lparr>c_name := Some ''write-vmids''\<rparr>) (Some 10000)
                           (Some [probeScriptPath E]) s = (r, s1)"
    by (cases "runOnVeHost E [] (tmpl\<lparr>c_name := Some ''write-vmids''\<rparr>) (Some 10000)
                 (Some [probeScriptPath E]) s")
  have w1: "wellFormed s1"
    using runOnVeHost_wellFormed [OF assms(1) pr] .
  show ?thesis
  proof (cases r)
    case (Inl e)
    with pr w1 assms(2) show ?thesis by (simp add: def)
  next
    case (Inr pm)
    show ?thesis
    proof (cases "verifyHost E hostname (usedStrOf s1 pm)")
      case (Inl e)
      with Inr pr w1 assms(2) show ?thesis by (simp add: def)
    next
      case (Inr vmctx)
      with \<open>r = Inr pm\<close> pr assms(2) runOnLxc_wellFormed [OF w1] show ?thesis
        by (auto simp: def split: prod.splits sum.splits)
    qed
  qed
qed

lemma wellFormed_set_output:
  "wellFormed s \<Longrightarrow> wellFormed (s\<lparr>outputs := map_set k v (outputs s)\<rparr>)"
  by (simp add: wellFormed_def distinct_map_set)

lemma propertyLoop_wellFormed:
  "wellFormed s \<Longrightarrow> wellFormed (propertyLoop entries s)"
proof (induction entries arbitrary: s)
  case Nil
  then show ?case by simp
next
  case (Cons entry entries)
  have "wellFormed (case resolveProperty s entry of
                      Store v \<Rightarrow> s\<lparr>outputs := map_set (p_id entry) v (outputs s)\<rparr>
                    | _ \<Rightarrow> s)"
    using Cons.prems by (simp add: wellFormed_set_output split: resolved.splits)
  then show ?case using Cons.IH by simp
qed

lemma propertiesStep_wellFormed:
  "wellFormed s \<Longrightarrow> propertiesStep cmd props (mi, rc, s) = (oc, mi', rc', s') \<Longrightarrow>
     wellFormed s'"
  by (auto simp: propertiesStep_def propertyLoop_wellFormed wellFormed_set_output
        split: properties.splits resolved.splits)

lemma fallback_wellFormed:
  "wellFormed s \<Longrightarrow> wellFormed (fallback E lastMsg s)"
  by (auto simp: fallback_def wellFormed_def distinct_set_all
        split: option.splits result.splits)

lemma dispatch_wellFormed:
  assumes "wellFormed s" and "dispatch E i cmd rawStr (mi, rc, s) = (oc, mi', rc', s')"
  shows "wellFormed s'"
  using assms
  by (auto simp: dispatch_def succeeded_def caught_def fallback_wellFormed
        split: option.splits prod.splits sum.splits if_splits
        dest: runOnLxc_wellFormed runOnVeHost_wellFormed executeOnHost_wellFormed)

lemma step_wellFormed:
  assumes "wellFormed s" and "step E i cmd (mi, rc, s) = (oc, mi', rc', s')"
  shows "wellFormed s'"
  using assms
  by (auto simp: step_def caught_def split: option.splits sum.splits if_splits
        dest: dispatch_wellFormed propertiesStep_wellFormed)

lemma runLoop_wellFormed:
  "wellFormed s \<Longrightarrow> runLoop E i cmds (mi, rc, s) = (mi', rc', s') \<Longrightarrow> wellFormed s'"
proof (induction cmds arbitrary: i mi rc s)
  case Nil
  then show ?case by simp
next
  case (Cons cmd cmds)
  obtain oc mi1 rc1 s1 where st: "step E i cmd (mi, rc, s) = (oc, mi1, rc1, s1)"
    by (cases "step E i cmd (mi, rc, s)") auto
  have w1: "wellFormed s1" using step_wellFormed [OF Cons.prems(1) st] .
  show ?case
  proof (cases oc)
    case Continue
    with st Cons.prems(2) have "runLoop E (i + 1) cmds (mi1, rc1, s1) = (mi', rc', s')" by simp
    then show ?thesis using Cons.IH [OF w1] by simp
  next
    case Break
    with st Cons.prems(2) w1 show ?thesis by simp
  qed
qed

lemma construct_wellFormed:
  "distinct (map fst defs) \<Longrightarrow> wellFormed (construct inps defs)"
  by (simp add: wellFormed_def construct_def distinct_set_all)

subsection \<open>The same scopes give the same steps\<close>

lemma shifted_fields [simp]:
  "sshCommand (shifted c E) = sshCommand E" "veContext (shifted c E) = veContext E"
  "scriptTimeoutMs (shifted c E) = scriptTimeoutMs E"
  "readFileSync (shifted c E) = readFileSync E" "jsonOutputs (shifted c E) = jsonOutputs E"
  "jsonProbe (shifted c E) = jsonProbe E" "jsonEntries (shifted c E) = jsonEntries E"
  "localFileBase64 (shifted c E) = localFileBase64 E"
  "getVMContextByHostname (shifted c E) = getVMContextByHostname E"
  "probeScriptPath (shifted c E) = probeScriptPath E"
  "requireModule (shifted c E) = requireModule E" "numberText (shifted c E) = numberText E"
  "spawnAsync (shifted c E) n = spawnAsync E (n + c)"
  "nonce (shifted c E) n = nonce E (n + c)"
  by (simp_all add: shifted_def)

lemma shifted_tools [simp]:
  "processLocalFileValue (shifted c E) = processLocalFileValue E"
  "sshArgsOf (shifted c E) = sshArgsOf E"
  "requestOf (shifted c E) = requestOf E"
  "verifyHost (shifted c E) = verifyHost E"
  by (auto simp: processLocalFileValue_def sshArgsOf_def requestOf_def verifyHost_def
        vmidOk_def toNumber_def fun_eq_iff
        split: val.splits option.splits sum.splits probe_json.splits)

lemma sameScopes_log [simp]:
  "sameScopes c (emit m s) t = sameScopes c s t"
  "sameScopes c s (emit m t) = sameScopes c s t"
  "sameScopes c (emitChunks tmpl input chs s) t = sameScopes c s t"
  "sameScopes c s (emitChunks tmpl input chs t) = sameScopes c s t"
  "sameScopes c (s\<lparr>gindex := g\<rparr>) t = sameScopes c s t"
  "sameScopes c s (t\<lparr>gindex := g\<rparr>) = sameScopes c s t"
  "sameScopes c (s\<lparr>sleeps := sl\<rparr>) t = sameScopes c s t"
  "sameScopes c s (t\<lparr>sleeps := sl\<rparr>) = sameScopes c s t"
  by (simp_all add: sameScopes_def)

lemma sameScopes_marker: "sameScopes c s t \<Longrightarrow> markerOf (shifted c E) t = markerOf E s"
  by (simp add: sameScopes_def markerOf_def)

lemma nameValueLoop_sim:
  "sameScopes c s t \<Longrightarrow>
     fst (nameValueLoop (shifted c E) nvs raw t) = fst (nameValueLoop E nvs raw s) \<and>
     sameScopes c (snd (nameValueLoop E nvs raw s)) (snd (nameValueLoop (shifted c E) nvs raw t))"
proof (induction nvs arbitrary: raw s t)
  case Nil
  then show ?case by simp
next
  case (Cons nv nvs)
  obtain n v where nv: "nv = (n, v)" by (cases nv)
  show ?case
  proof (cases "processLocalFileValue E v")
    case (Inl e)
    with nv Cons.prems show ?thesis by simp
  next
    case (Inr pv)
    have "sameScopes c (s\<lparr>outputs := map_set n pv (outputs s)\<rparr>)
            (t\<lparr>outputs := map_set n pv (outputs t)\<rparr>)"
      using Cons.prems by (simp add: sameScopes_def)
    from Cons.IH [OF this] nv Inr show ?thesis by simp
  qed
qed

lemma storeOutput_sim:
  "sameScopes c s t \<Longrightarrow>
     fst (storeOutput (shifted c E) entry t) = fst (storeOutput E entry s) \<and>
     sameScopes c (snd (storeOutput E entry s)) (snd (storeOutput (shifted c E) entry t))"
  by (auto simp: storeOutput_def sameScopes_def split: option.splits sum.splits)

lemma outputLoop_sim:
  "sameScopes c s t \<Longrightarrow>
     fst (outputLoop (shifted c E) entries t) = fst (outputLoop E entries s) \<and>
     sameScopes c (snd (outputLoop E entries s)) (snd (outputLoop (shifted c E) entries t))"
proof (induction entries arbitrary: s t)
  case Nil
  then show ?case by simp
next
  case (Cons entry entries)
  obtain r s1 where a: "storeOutput E entry s = (r, s1)" by (cases "storeOutput E entry s")
  obtain r' t1 where b: "storeOutput (shifted c E) entry t = (r', t1)"
    by (cases "storeOutput (shifted c E) entry t")
  have ab: "r' = r" "sameScopes c s1 t1"
    using storeOutput_sim [OF Cons.prems, of E entry] a b by simp_all
  show ?case using Cons.IH [OF ab(2)] a b ab by (cases r) simp_all
qed

lemma applyOutputs_sim:
  assumes "sameScopes c s t"
  shows "fst (applyOutputs (shifted c E) j t) = fst (applyOutputs E j s) \<and>
     sameScopes c (snd (applyOutputs E j s)) (snd (applyOutputs (shifted c E) j t))"
proof (cases j)
  case (OSingle obj)
  then show ?thesis using storeOutput_sim [OF assms, of E obj] by (simp add: applyOutputs_def)
next
  case (OArray entries)
  then show ?thesis using outputLoop_sim [OF assms, of E entries] by (simp add: applyOutputs_def)
next
  case (ONameValues nvs)
  show ?thesis
  proof (cases nvs)
    case Nil
    with ONameValues assms show ?thesis by (simp add: applyOutputs_def)
  next
    case (Cons nv rest)
    obtain r s1 where a: "nameValueLoop E (nv # rest) [] s = (r, s1)"
      by (cases "nameValueLoop E (nv # rest) [] s")
    obtain r' t1 where b: "nameValueLoop (shifted c E) (nv # rest) [] t = (r', t1)"
      by (cases "nameValueLoop (shifted c E) (nv # rest) [] t")
    have ab: "r' = r" "sameScopes c s1 t1"
      using nameValueLoop_sim [OF assms, of E "nv # rest" "[]"] a b by simp_all
    with ONameValues Cons a b show ?thesis
      by (cases r) (simp_all add: applyOutputs_def sameScopes_def)
  qed
qed

lemma parseAndUpdateOutputs_sim:
  assumes "sameScopes c s t"
  shows "fst (parseAndUpdateOutputs (shifted c E) out marker t)
           = fst (parseAndUpdateOutputs E out marker s) \<and>
     sameScopes c (snd (parseAndUpdateOutputs E out marker s))
       (snd (parseAndUpdateOutputs (shifted c E) out marker t))"
  using assms applyOutputs_sim [OF assms, of E]
  by (auto simp: parseAndUpdateOutputs_def split: sum.splits)

lemma finishRun_sim:
  assumes "sameScopes c s t"
    and "finishRun E input tmpl marker p s = (r, s')"
    and "finishRun (shifted c E) input tmpl marker p t = (r', t')"
  shows "sameResult r r' \<and> sameScopes c s' t'"
proof -
  obtain q s1 where a: "parseAndUpdateOutputs E (stdout p) marker s = (q, s1)"
    by (cases "parseAndUpdateOutputs E (stdout p) marker s")
  obtain q' t1 where b: "parseAndUpdateOutputs (shifted c E) (stdout p) marker t = (q', t1)"
    by (cases "parseAndUpdateOutputs (shifted c E) (stdout p) marker t")
  have ab: "q' = q" "sameScopes c s1 t1"
    using parseAndUpdateOutputs_sim [OF assms(1), of E "stdout p" marker] a b by simp_all
  have raw: "outputsRawResult t1 = outputsRawResult s1"
    using ab(2) by (simp add: sameScopes_def)
  have upd: "sameScopes c (s1\<lparr>outputsRaw := x\<rparr>) (t1\<lparr>outputsRaw := x\<rparr>)" for x
    using ab(2) by (simp add: sameScopes_def)
  show ?thesis
    using assms a b ab raw upd
    by (cases q) (auto simp: finishRun_def Let_def sameResult_def split: if_splits option.splits)
qed

lemma spawnLoop_sim:
  assumes "sameScopes c s t"
    and "spawnLoop E rq tmpl input 0 None s = (r, s1)"
    and "spawnLoop (shifted c E) rq tmpl input 0 None t = (r', t1)"
  shows "r' = r \<and> sameScopes c s1 t1"
proof -
  have sp: "spawns s = spawns t + c" using assms(1) by (simp add: sameScopes_def)
  have up: "sameScopes c (s\<lparr>spawns := spawns s + k\<rparr>) (t\<lparr>spawns := spawns t + k\<rparr>)" for k
    using assms(1) by (simp add: sameScopes_def)
  have up1: "sameScopes c (s\<lparr>spawns := Suc (spawns t + c)\<rparr>) (t\<lparr>spawns := Suc (spawns t)\<rparr>)"
       "sameScopes c (s\<lparr>spawns := Suc (Suc (spawns t + c))\<rparr>) (t\<lparr>spawns := Suc (Suc (spawns t))\<rparr>)"
       "sameScopes c (s\<lparr>spawns := Suc (Suc (Suc (spawns t + c)))\<rparr>)
          (t\<lparr>spawns := Suc (Suc (Suc (spawns t)))\<rparr>)"
    using assms(1) by (simp_all add: sameScopes_def)
  show ?thesis
    using assms(2,3) up1
    by (auto simp: spawnLoop_unfold3 Let_def sp sameScopes_def split: if_splits)
qed

lemma runOnVeHost_sim:
  assumes "sameScopes c s t"
    and "runOnVeHost E input tmpl timeoutMs remote s = (r, s')"
    and "runOnVeHost (shifted c E) input tmpl timeoutMs remote t = (r', t')"
  shows "sameResult r r' \<and> sameScopes c s' t'"
proof (cases "sshArgsOf E remote")
  case (Inl e)
  with assms show ?thesis by (simp add: runOnVeHost_def sameResult_def)
next
  case (Inr args)
  let ?rq = "requestOf E args timeoutMs (markerOf E s) input"
  have mk: "markerOf (shifted c E) t = markerOf E s"
    using assms(1) by (rule sameScopes_marker)
  obtain q s1 where a: "spawnLoop E ?rq tmpl input 0 None s = (q, s1)"
    by (cases "spawnLoop E ?rq tmpl input 0 None s")
  obtain q' t1 where b: "spawnLoop (shifted c E) ?rq tmpl input 0 None t = (q', t1)"
    by (cases "spawnLoop (shifted c E) ?rq tmpl input 0 None t")
  have ab: "q' = q" "sameScopes c s1 t1"
    using spawnLoop_sim [OF assms(1) a b] by simp_all
  show ?thesis
  proof (cases q)
    case None
    with Inr a b ab assms(2,3) mk show ?thesis
      by (simp add: runOnVeHost_def sameResult_def)
  next
    case (Some p)
    with Inr a b ab assms(2,3) mk
    have "finishRun E input tmpl (markerOf E s) p s1 = (r, s')"
      and "finishRun (shifted c E) input tmpl (markerOf E s) p t1 = (r', t')"
      by (simp_all add: runOnVeHost_def)
    with ab(2) show ?thesis by (rule finishRun_sim)
  qed
qed

lemma runOnLxc_sim:
  assumes "sameScopes c s t"
    and "runOnLxc E vmid payload tmpl timeoutMs s = (r, s')"
    and "runOnLxc (shifted c E) vmid payload tmpl timeoutMs t = (r', t')"
  shows "sameResult r r' \<and> sameScopes c s' t'"
  using assms unfolding runOnLxc_def shifted_fields by (rule runOnVeHost_sim)

lemma sameResult_cases:
  "sameResult r r' \<Longrightarrow>
     (\<exists>e. r = Inl e \<and> r' = Inl e) \<or> (\<exists>m m'. r = Inr m \<and> r' = Inr m' \<and> m_result m' = m_result m)"
  by (cases r; cases r') (auto simp: sameResult_def)

lemma executeOnHost_sim:
  assumes "sameScopes c s t"
    and "executeOnHost E hostname payload tmpl s = (r, s')"
    and "executeOnHost (shifted c E) hostname payload tmpl t = (r', t')"
  shows "r' = r \<and> sameScopes c s' t'"
proof (cases E rule: executeOnHost_cases)
  case (unloaded e u)
  then have "requireModule (shifted c E) ''node:path'' = Inl e \<or>
       (requireModule (shifted c E) ''node:path'' = Inr u
        \<and> requireModule (shifted c E) ''node:url'' = Inl e)"
    by simp
  from executeOnHost_unloaded [OF this] executeOnHost_unloaded [OF unloaded] assms
  show ?thesis by simp
next
  case (loaded u v)
  note def = executeOnHost_loaded [OF loaded]
  have "requireModule (shifted c E) ''node:path'' = Inr u"
       "requireModule (shifted c E) ''node:url'' = Inr v"
    using loaded by simp_all
  note def' = executeOnHost_loaded [OF this]
  let ?probe = "tmpl\<lparr>c_name := Some ''write-vmids''\<rparr>"
  obtain q s1 where a: "runOnVeHost E [] ?probe (Some 10000) (Some [probeScriptPath E]) s
                          = (q, s1)"
    by (cases "runOnVeHost E [] ?probe (Some 10000) (Some [probeScriptPath E]) s")
  obtain q' t1 where b: "runOnVeHost (shifted c E) [] ?probe (Some 10000)
                           (Some [probeScriptPath E]) t = (q', t1)"
    by (cases "runOnVeHost (shifted c E) [] ?probe (Some 10000) (Some [probeScriptPath E]) t")
  have ab: "sameResult q q'" "sameScopes c s1 t1"
    using runOnVeHost_sim [OF assms(1) a b] by simp_all
  have sc: "outputs t1 = outputs s1" "inputs t1 = inputs s1" "defaults t1 = defaults s1"
    using ab(2) by (simp_all add: sameScopes_def)
  from sameResult_cases [OF ab(1)] show ?thesis
  proof (elim disjE exE conjE)
    fix e
    assume "q = Inl e" "q' = Inl e"
    with a b ab(2) assms(2,3) show ?thesis by (simp add: def def')
  next
    fix m m'
    assume q: "q = Inr m" "q' = Inr m'" and m: "m_result m' = m_result m"
    have us: "usedStrOf t1 m' = usedStrOf s1 m"
      using sc m by (simp add: usedStrOf_def Let_def)
    show ?thesis
    proof (cases "verifyHost E hostname (usedStrOf s1 m)")
      case (Inl e)
      with q a b us ab(2) assms(2,3) show ?thesis by (simp add: def def')
    next
      case (Inr vmctx)
      let ?text = "hostPayload (reg_data vmctx) s1 payload"
      have tx: "hostPayload (reg_data vmctx) t1 payload = ?text"
        using sc by (simp add: hostPayload_def)
      obtain u s2 where x: "runOnLxc E (reg_vmid vmctx) ?text tmpl None s1 = (u, s2)"
        by (cases "runOnLxc E (reg_vmid vmctx) ?text tmpl None s1")
      obtain u' t2 where y: "runOnLxc (shifted c E) (reg_vmid vmctx) ?text tmpl None t1 = (u', t2)"
        by (cases "runOnLxc (shifted c E) (reg_vmid vmctx) ?text tmpl None t1")
      have xy: "sameResult u u'" "sameScopes c s2 t2"
        using runOnLxc_sim [OF ab(2) x y] by simp_all
      from sameResult_cases [OF xy(1)] q a b us tx Inr x y xy(2) assms(2,3) show ?thesis
        by (auto simp: def def')
    qed
  qed
qed

lemma fallback_sim:
  "sameScopes c s t \<Longrightarrow> m_result m' = m_result m \<Longrightarrow>
     sameScopes c (fallback E (Some m) s) (fallback (shifted c E) (Some m') t)"
  by (auto simp: fallback_def sameScopes_def split: result.splits option.splits)

lemma fallback_None [simp]: "fallback E None s = s"
  by (simp add: fallback_def)

lemma sameScopes_fields:
  assumes "sameScopes c s t"
  shows "inputs t = inputs s" and "outputs t = outputs s" and "defaults t = defaults s"
    and "outputsRaw t = outputsRaw s" and "outputsRawResult t = outputsRawResult s"
  using assms by (simp_all add: sameScopes_def)

lemma dispatch_sim:
  assumes "sameScopes c s t"
    and "dispatch E i cmd rawStr (mi, rc, s) = (oc, mi1, rc1, s1)"
    and "dispatch (shifted c E) i cmd rawStr (mi', rc', t) = (oc', mi1', rc1', t1)"
  shows "oc' = oc \<and> sameScopes c s1 t1"
proof -
  note sc = sameScopes_fields [OF assms(1)]
  have vm: "(if falsy (findVmId t) then None else findVmId t)
              = (if falsy (findVmId s) then None else findVmId s)"
    unfolding findVmId_def sc by (rule refl)
  let ?text = "replaceVars (outputs s) (inputs s) (defaults s) rawStr"
  note ds = assms(2) [unfolded dispatch_def prod.case]
  note dt = assms(3) [unfolded dispatch_def prod.case vm sc(1,2,3)]
  consider (lxc) "c_execute_on cmd = Some ''lxc''"
    | (ve) "c_execute_on cmd = Some ''ve''"
    | (other) "c_execute_on cmd \<noteq> Some ''lxc''" "c_execute_on cmd \<noteq> Some ''ve''"
    by blast
  then show ?thesis
  proof cases
    case lxc
    show ?thesis
    proof (cases "if falsy (findVmId s) then None else findVmId s")
      case None
      with lxc ds dt assms(1) show ?thesis by auto
    next
      case (Some vmid)
      obtain u s2 where x: "runOnLxc E vmid ?text cmd None s = (u, s2)"
        by (cases "runOnLxc E vmid ?text cmd None s")
      obtain u' t2 where y: "runOnLxc (shifted c E) vmid ?text cmd None t = (u', t2)"
        by (cases "runOnLxc (shifted c E) vmid ?text cmd None t")
      have xy: "sameResult u u'" "sameScopes c s2 t2"
        using runOnLxc_sim [OF assms(1) x y] by simp_all
      from sameResult_cases [OF xy(1)] lxc Some x y xy(2) ds dt
      show ?thesis
        by (auto simp: caught_def succeeded_def)
    qed
  next
    case ve
    obtain u s2 where x: "runOnVeHost E ?text cmd None None s = (u, s2)"
      by (cases "runOnVeHost E ?text cmd None None s")
    obtain u' t2 where y: "runOnVeHost (shifted c E) ?text cmd None None t = (u', t2)"
      by (cases "runOnVeHost (shifted c E) ?text cmd None None t")
    have xy: "sameResult u u'" "sameScopes c s2 t2"
      using runOnVeHost_sim [OF assms(1) x y] by simp_all
    from sameResult_cases [OF xy(1)] show ?thesis
    proof (elim disjE exE conjE)
      fix e
      assume "u = Inl e" "u' = Inl e"
      with ve x y xy(2) ds dt show ?thesis
        by (auto simp: caught_def)
    next
      fix m m'
      assume "u = Inr m" "u' = Inr m'" "m_result m' = m_result m"
      with ve x y ds dt fallback_sim [OF xy(2), of m' m E] show ?thesis
        by (auto simp: succeeded_def)
    qed
  next
    case other
    show ?thesis
    proof (cases "c_execute_on cmd")
      case None
      with ds dt assms(1) show ?thesis by auto
    next
      case (Some target)
      show ?thesis
      proof (cases "startsWith target ''host:''")
        case False
        with Some other ds dt assms(1) show ?thesis by auto
      next
        case True
        obtain u s2 where x: "executeOnHost E (hostnameOf target) rawStr cmd s = (u, s2)"
          by (cases "executeOnHost E (hostnameOf target) rawStr cmd s")
        obtain u' t2 where y: "executeOnHost (shifted c E) (hostnameOf target) rawStr cmd t
                                 = (u', t2)"
          by (cases "executeOnHost (shifted c E) (hostnameOf target) rawStr cmd t")
        have xy: "u' = u" "sameScopes c s2 t2"
          using executeOnHost_sim [OF assms(1) x y] by simp_all
        from Some other True x y xy ds dt
        show ?thesis
          by (cases u) (auto simp: succeeded_def)
      qed
    qed
  qed
qed

lemma propertyLoop_sim:
  "sameScopes c s t \<Longrightarrow> sameScopes c (propertyLoop entries s) (propertyLoop entries t)"
proof (induction entries arbitrary: s t)
  case Nil
  then show ?case by simp
next
  case (Cons entry entries)
  note sc = sameScopes_fields [OF Cons.prems]
  have r: "resolveProperty t entry = resolveProperty s entry"
    unfolding resolveProperty_def sc by (rule refl)
  have "sameScopes c
          (case resolveProperty s entry of
             Store v \<Rightarrow> s\<lparr>outputs := map_set (p_id entry) v (outputs s)\<rparr> | _ \<Rightarrow> s)
          (case resolveProperty s entry of
             Store v \<Rightarrow> t\<lparr>outputs := map_set (p_id entry) v (outputs t)\<rparr> | _ \<Rightarrow> t)"
    using Cons.prems by (auto simp: sameScopes_def split: resolved.splits)
  from Cons.IH [OF this] r show ?case by simp
qed

lemma propertiesStep_sim:
  assumes "sameScopes c s t"
    and "propertiesStep cmd props (mi, rc, s) = (oc, mi1, rc1, s1)"
    and "propertiesStep cmd props (mi', rc', t) = (oc', mi1', rc1', t1)"
  shows "oc' = oc \<and> sameScopes c s1 t1"
proof -
  note sc = sameScopes_fields [OF assms(1)]
  have r: "resolveProperty t entry = resolveProperty s entry" for entry
    unfolding resolveProperty_def sc by (rule refl)
  have up: "sameScopes c (s\<lparr>outputs := map_set k v (outputs s)\<rparr>)
              (t\<lparr>outputs := map_set k v (outputs s)\<rparr>)" for k v
    using assms(1) by (simp add: sameScopes_def)
  show ?thesis
    using assms propertyLoop_sim [OF assms(1)] r up sc
    by (auto simp: propertiesStep_def split: properties.splits resolved.splits)
qed

lemma step_sim:
  assumes "sameScopes c s t"
    and "step E i cmd (mi, rc, s) = (oc, mi1, rc1, s1)"
    and "step (shifted c E) i cmd (mi', rc', t) = (oc', mi1', rc1', t1)"
  shows "oc' = oc \<and> sameScopes c s1 t1"
proof (cases "isSkipped cmd")
  case True
  with assms show ?thesis by (auto simp: step_def)
next
  case False
  show ?thesis
  proof (cases "c_properties cmd")
    case (Some props)
    with False assms propertiesStep_sim [OF assms(1)] show ?thesis
      by (auto simp: step_def)
  next
    case None
    show ?thesis
    proof (cases "c_script cmd")
      case (Some path)
      show ?thesis
      proof (cases "readFileSync E path")
        case (Inl e)
        with False None Some assms show ?thesis by (auto simp: step_def caught_def)
      next
        case (Inr rawStr)
        with False None Some assms dispatch_sim [OF assms(1)] show ?thesis
          by (auto simp: step_def)
      qed
    next
      case noScript: None
      show ?thesis
      proof (cases "c_command cmd")
        case None
        with False \<open>c_properties cmd = None\<close> noScript assms show ?thesis
          by (auto simp: step_def)
      next
        case (Some rawStr)
        with False \<open>c_properties cmd = None\<close> noScript assms dispatch_sim [OF assms(1)]
        show ?thesis
          by (auto simp: step_def)
      qed
    qed
  qed
qed

lemma runLoop_sim:
  assumes "sameScopes c s t"
    and "runLoop E i cmds (mi, rc, s) = (mi1, rc1, s1)"
    and "runLoop (shifted c E) i cmds (mi', rc', t) = (mi1', rc1', t1)"
  shows "sameScopes c s1 t1"
  using assms
proof (induction cmds arbitrary: i mi rc s mi' rc' t)
  case Nil
  then show ?case by simp
next
  case (Cons cmd cmds)
  obtain oc m2 r2 s2 where x: "step E i cmd (mi, rc, s) = (oc, m2, r2, s2)"
    by (cases "step E i cmd (mi, rc, s)") auto
  obtain oc' m2' r2' t2 where y: "step (shifted c E) i cmd (mi', rc', t) = (oc', m2', r2', t2)"
    by (cases "step (shifted c E) i cmd (mi', rc', t)") auto
  have xy: "oc' = oc" "sameScopes c s2 t2"
    using step_sim [OF Cons.prems(1) x y] by simp_all
  show ?case
  proof (cases oc)
    case Continue
    with x y xy Cons.prems(2,3) Cons.IH [OF xy(2)] show ?thesis by simp
  next
    case Break
    with x y xy Cons.prems(2,3) show ?thesis by simp
  qed
qed

subsection \<open>The checkpoint of the last step of a prefix\<close>

lemma dispatch_checkpoint:
  "dispatch E i cmd rawStr (mi, rc, s) = (oc, mi', rc', s') \<Longrightarrow>
     rc' = rc \<or> (oc = Continue \<and> rc' = Some (checkpoint i s'))
     \<or> (oc = Break \<and> rc' = Some (checkpoint (i - 1) s'))"
  by (auto simp: dispatch_def succeeded_def caught_def
        split: option.splits prod.splits sum.splits if_splits)

lemma step_checkpoint:
  "step E i cmd (mi, rc, s) = (oc, mi', rc', s') \<Longrightarrow>
     rc' = rc \<or> (oc = Continue \<and> rc' = Some (checkpoint i s'))
     \<or> (oc = Break \<and> rc' = Some (checkpoint (i - 1) s'))"
  by (auto simp: step_def propertiesStep_def caught_def
        split: option.splits sum.splits if_splits properties.splits resolved.splits
        dest: dispatch_checkpoint)

lemma checkpoint_index [simp]: "lastSuccessfull (checkpoint i s) = i"
  by (simp add: checkpoint_def)

lemma runLoop_through:
  assumes "\<forall>cp. rc = Some cp \<longrightarrow> lastSuccessfull cp < i"
    and "runLoop E i xs (mi, rc, s) = (mi1, Some cp, s1)"
    and "lastSuccessfull cp = i + int (length xs) - 1"
    and "xs \<noteq> []"
  shows "cp = checkpoint (i + int (length xs) - 1) s1 \<and>
         runLoop E i (xs @ ys) (mi, rc, s) = runLoop E (i + int (length xs)) ys (mi1, Some cp, s1)"
  using assms
proof (induction xs arbitrary: i mi rc s)
  case Nil
  then show ?case by simp
next
  case (Cons x xs)
  obtain oc m2 r2 s2 where st: "step E i x (mi, rc, s) = (oc, m2, r2, s2)"
    by (cases "step E i x (mi, rc, s)") auto
  note sh = step_checkpoint [OF st]
  from sh Cons.prems(1)
  have b: "\<forall>cp. r2 = Some cp \<longrightarrow> lastSuccessfull cp < i + 1" by auto
  show ?case
  proof (cases oc)
    case Break
    with st Cons.prems(2) have "r2 = Some cp" by simp
    with sh Break Cons.prems(1) have "lastSuccessfull cp < i" by auto
    with Cons.prems(3) show ?thesis by simp
  next
    case Continue
    with st Cons.prems(2)
    have rest: "runLoop E (i + 1) xs (m2, r2, s2) = (mi1, Some cp, s1)" by simp
    show ?thesis
    proof (cases xs)
      case Nil
      with rest have e: "m2 = mi1" "r2 = Some cp" "s2 = s1" by simp_all
      from Nil Cons.prems(3) have "lastSuccessfull cp = i" by simp
      with sh e Cons.prems(1) Continue have "cp = checkpoint i s1" by auto
      with Nil st Continue e show ?thesis by simp
    next
      case (Cons y ys')
      then have ne: "xs \<noteq> []" by simp
      have idx: "lastSuccessfull cp = (i + 1) + int (length xs) - 1"
        using Cons.prems(3) by simp
      from Cons.IH [OF b rest idx ne] st Continue show ?thesis
        by (simp add: add.assoc)
    qed
  qed
qed

subsection \<open>Loading a checkpoint\<close>

lemma restore_sameScopes:
  assumes "wellFormed s" and "outputsRaw s = None"
  shows "sameScopes (spawns s) s (restore (checkpoint k s) (construct inps defs))"
  using assms
  by (simp add: sameScopes_def restore_def checkpoint_def wellFormed_def set_all_Nil)

lemma run_scopes:
  "runLoop E (max 0 (startIdx ri)) (drop (nat (startIdx ri)) cmds)
      (0, None, (case ri of None \<Rightarrow> s | Some r \<Rightarrow> restore r s)) = (mi, rc, s1) \<Longrightarrow>
   outputs (snd (run E cmds ri s)) = outputs s1 \<and> defaults (snd (run E cmds ri s)) = defaults s1"
  by (auto simp: run_def split: sum.splits)

subsection \<open>The claim\<close>




end
